theory Spec2Isabelle
  imports Main "HOL-Library.Char_ord" "HOL-Library.List_Lexorder" "HOL-Library.AList"
begin

section \<open>Python values as the program sees them\<close>

text \<open>
  The program is \<^verbatim>\<open>gitlab_gui_pro_full.py\<close>. Python strings are modelled as
  \<^typ>\<open>string\<close>: a character is a code point below 256, so \<^verbatim>\<open>lower\<close>,
  \<^verbatim>\<open>strip\<close> and the comparison of strings are the ones of Python on that range.
  A value decoded from JSON (\<^verbatim>\<open>r.json()\<close>, \<^verbatim>\<open>json.load\<close>) is a
  \<open>json\<close>; a JSON object is a Python dict, kept as an association list in key order.
  JSON numbers with a fraction (Python floats) are outside the model.
\<close>

datatype json =
    JNull
  | JBool bool
  | JInt int
  | JStr string
  | JArr "json list"
  | JObj "(string \<times> json) list"

datatype error =
    HTTPError string
  | RequestException
  | JSONDecodeError
  | FileNotFoundError
  | TypeError
  | AttributeError
  | TclError
  | OSError

text \<open>Truth value of a Python object, as \<^verbatim>\<open>if x:\<close> and \<^verbatim>\<open>not x\<close> read it.\<close>

fun truthy :: "json \<Rightarrow> bool" where
  "truthy JNull = False"
| "truthy (JBool b) = b"
| "truthy (JInt i) = (i \<noteq> 0)"
| "truthy (JStr s) = (s \<noteq> [])"
| "truthy (JArr xs) = (xs \<noteq> [])"
| "truthy (JObj kvs) = (kvs \<noteq> [])"

text \<open>\<^verbatim>\<open>x.get(k)\<close> and \<^verbatim>\<open>x.get(k, d)\<close>: only a dict has the method.\<close>

fun py_get_default :: "json \<Rightarrow> string \<Rightarrow> json \<Rightarrow> error + json" where
  "py_get_default (JObj kvs) k d = Inr (case map_of kvs k of None \<Rightarrow> d | Some v \<Rightarrow> v)"
| "py_get_default _ k d = Inl AttributeError"

definition py_get :: "json \<Rightarrow> string \<Rightarrow> error + json" where
  "py_get x k = py_get_default x k JNull"

text \<open>The elements \<^verbatim>\<open>list.extend(x)\<close> appends: iteration over a Python object.\<close>

fun py_iter :: "json \<Rightarrow> error + json list" where
  "py_iter (JArr xs) = Inr xs"
| "py_iter (JObj kvs) = Inr (map (\<lambda>kv. JStr (fst kv)) kvs)"
| "py_iter (JStr s) = Inr (map (\<lambda>c. JStr [c]) s)"
| "py_iter _ = Inl TypeError"

subsection \<open>Strings\<close>

definition py_isspace :: "char \<Rightarrow> bool" where
  "py_isspace c = (let n = (of_char c :: nat) in
     (9 \<le> n \<and> n \<le> 13) \<or> (28 \<le> n \<and> n \<le> 32) \<or> n = 133 \<or> n = 160)"

definition rstrip_chars :: "(char \<Rightarrow> bool) \<Rightarrow> string \<Rightarrow> string" where
  "rstrip_chars P s = rev (dropWhile P (rev s))"

definition strip :: "string \<Rightarrow> string" where
  "strip s = rstrip_chars py_isspace (dropWhile py_isspace s)"

definition lower_char :: "char \<Rightarrow> char" where
  "lower_char c = (let n = (of_char c :: nat) in
     if (65 \<le> n \<and> n \<le> 90) \<or> (192 \<le> n \<and> n \<le> 222 \<and> n \<noteq> 215)
     then char_of (n + 32) else c)"

definition lower :: "string \<Rightarrow> string" where
  "lower s = map lower_char s"

text \<open>\<^verbatim>\<open>str(n)\<close> for an integer: its decimal digits.\<close>

fun digits :: "nat \<Rightarrow> string" where
  "digits n = (if n < 10 then [char_of (48 + n)]
               else digits (n div 10) @ [char_of (48 + n mod 10)])"

declare digits.simps [simp del]

definition str_int :: "int \<Rightarrow> string" where
  "str_int i = (if i < 0 then CHR ''-'' # digits (nat (- i)) else digits (nat i))"

section \<open>The HTTP layer\<close>

text \<open>
  \<^verbatim>\<open>requests.get\<close> and \<^verbatim>\<open>requests.post\<close> are calls into the world. A request is
  what the program hands to the library; a reply is either an exception of the library
  (no connection, timeout) or a response, of which the program reads the status code,
  the text, the raw content and the decoded JSON (\<open>None\<close> when \<^verbatim>\<open>r.json()\<close> raises).
  The world answers the \<open>i\<close>-th request with the \<open>i\<close>-th reply of a sequence.
\<close>

datatype http_verb = GET | POST

record request =
  req_verb :: http_verb
  req_url :: string
  req_headers :: "(string \<times> string) list"
  req_params :: "(string \<times> string) list"
  req_json :: "json option"
  req_file :: "string option"
  req_timeout :: nat

record response =
  status_code :: int
  resp_text :: string
  resp_content :: string
  resp_json :: "json option"

datatype reply = Failed | Replied response

record net =
  replies :: "nat \<Rightarrow> reply"
  sent :: "request list"

definition http :: "request \<Rightarrow> net \<Rightarrow> reply \<times> net" where
  "http rq n = (replies n (length (sent n)), n\<lparr>sent := sent n @ [rq]\<rparr>)"

text \<open>\<^verbatim>\<open>raise requests.HTTPError(f"{r.status_code}: {r.text}")\<close>\<close>

definition http_error :: "response \<Rightarrow> error" where
  "http_error r = HTTPError (str_int (status_code r) @ '': '' @ resp_text r)"

definition r_json :: "response \<Rightarrow> error + json" where
  "r_json r = (case resp_json r of None \<Rightarrow> Inl JSONDecodeError | Some v \<Rightarrow> Inr v)"

section \<open>GitLabClient\<close>

record gitlab_client =
  base_url :: string
  client_token :: "string option"
  headers :: "(string \<times> string) list"

definition set_token :: "string \<Rightarrow> gitlab_client \<Rightarrow> gitlab_client" where
  "set_token tok c = c\<lparr>client_token := Some (strip tok),
     headers := [(''PRIVATE-TOKEN'', strip tok),
                 (''Authorization'', ''Bearer '' @ strip tok),
                 (''Content-Type'', ''application/json'')]\<rparr>"

definition GitLabClient :: "string option \<Rightarrow> string \<Rightarrow> gitlab_client" where
  "GitLabClient tok url =
     (let c = \<lparr>base_url = rstrip_chars (\<lambda>ch. ch = CHR ''/'') url,
               client_token = tok, headers = []\<rparr>
      in case tok of
           None \<Rightarrow> c
         | Some t \<Rightarrow> if t \<noteq> [] then set_token t c else c)"

text \<open>The value a client method returns: decoded JSON, or the raw bytes of a file.\<close>

datatype result = Parsed json | Raw string

text \<open>
  Every method sends one request and then reads the status code the same way: the
  statuses in \<open>ok\<close> return \<open>body r\<close>, any other status raises \<open>HTTPError\<close>.
\<close>

definition send_expect ::
  "request \<Rightarrow> int list \<Rightarrow> (response \<Rightarrow> error + result) \<Rightarrow> net \<Rightarrow> (error + result) \<times> net" where
  "send_expect rq ok body n =
     (case http rq n of
        (Failed, n') \<Rightarrow> (Inl RequestException, n')
      | (Replied r, n') \<Rightarrow> (if status_code r \<in> set ok then body r else Inl (http_error r), n'))"

definition parsed :: "response \<Rightarrow> error + result" where
  "parsed r = map_sum id Parsed (r_json r)"

definition test :: "gitlab_client \<Rightarrow> net \<Rightarrow> (error + result) \<times> net" where
  "test c n =
     send_expect \<lparr>req_verb = GET, req_url = base_url c @ ''/user'', req_headers = headers c,
                  req_params = [], req_json = None, req_file = None, req_timeout = 10\<rparr>
       [200] parsed n"

subsection \<open>Paged listing\<close>

definition page_request ::
  "gitlab_client \<Rightarrow> string \<Rightarrow> (string \<times> string) list \<Rightarrow> nat \<Rightarrow> request" where
  "page_request c path params page =
     \<lparr>req_verb = GET, req_url = base_url c @ path, req_headers = headers c,
      req_params = AList.update ''per_page'' (str_int 100)
                     (AList.update ''page'' (str_int (int page)) params),
      req_json = None, req_file = None, req_timeout = 20\<rparr>"

text \<open>
  One turn of the \<^verbatim>\<open>while True\<close> loop of \<^verbatim>\<open>_paged_get\<close> after the request: an error
  raised, or the list so far together with whether the loop goes on (\<open>True\<close>) or breaks.
  \<^verbatim>\<open>len(data)\<close> is the number of elements \<^verbatim>\<open>extend\<close> appended.
\<close>

definition per_page :: nat where
  "per_page = 100"

definition paged_body :: "reply \<Rightarrow> json list \<Rightarrow> error + (bool \<times> json list)" where
  "paged_body rp res =
     (case rp of
        Failed \<Rightarrow> Inl RequestException
      | Replied r \<Rightarrow>
          if status_code r \<noteq> 200 then Inl (http_error r)
          else (case r_json r of
                  Inl e \<Rightarrow> Inl e
                | Inr data \<Rightarrow>
                    if \<not> truthy data then Inr (False, res)
                    else (case py_iter data of
                            Inl e \<Rightarrow> Inl e
                          | Inr xs \<Rightarrow> Inr (\<not> length xs < per_page, res @ xs))))"

partial_function (option) paged_loop ::
  "gitlab_client \<Rightarrow> string \<Rightarrow> (string \<times> string) list \<Rightarrow> nat \<Rightarrow> json list \<Rightarrow> net
     \<Rightarrow> ((error + json list) \<times> net) option" where
  "paged_loop c path params page res n =
     (case http (page_request c path params page) n of
        (rp, n') \<Rightarrow>
          (case paged_body rp res of
             Inl e \<Rightarrow> Some (Inl e, n')
           | Inr (go_on, res') \<Rightarrow>
               if go_on then paged_loop c path params (page + 1) res' n'
               else Some (Inr res', n')))"

declare paged_loop.simps [code]

definition paged_get ::
  "gitlab_client \<Rightarrow> string \<Rightarrow> (string \<times> string) list \<Rightarrow> net
     \<Rightarrow> ((error + json list) \<times> net) option" where
  "paged_get c path params n = paged_loop c path params 1 [] n"

definition list_groups :: "gitlab_client \<Rightarrow> net \<Rightarrow> ((error + json list) \<times> net) option" where
  "list_groups c n = paged_get c ''/groups'' [] n"

subsection \<open>The other methods\<close>

text \<open>\<^verbatim>\<open>re.sub(r'\s+', '-', s)\<close>: \<open>prev\<close> says that the character before was white space.\<close>

fun sub_ws :: "bool \<Rightarrow> string \<Rightarrow> string" where
  "sub_ws prev [] = []"
| "sub_ws prev (c # cs) =
     (if py_isspace c then (if prev then sub_ws True cs else CHR ''-'' # sub_ws True cs)
      else c # sub_ws False cs)"

definition slug_char :: "char \<Rightarrow> bool" where
  "slug_char c = (let n = (of_char c :: nat) in
     (97 \<le> n \<and> n \<le> 122) \<or> (48 \<le> n \<and> n \<le> 57) \<or> c = CHR ''-'')"

definition slugify :: "string \<Rightarrow> string" where
  "slugify name = take 255 (filter slug_char (sub_ws False (lower (strip name))))"

definition create_group :: "gitlab_client \<Rightarrow> string \<Rightarrow> json \<Rightarrow> net \<Rightarrow> (error + result) \<times> net" where
  "create_group c name parent_id n =
     (let payload = [(''name'', JStr (strip name)), (''path'', JStr (slugify name))];
          payload = (if truthy parent_id then payload @ [(''parent_id'', parent_id)] else payload)
      in send_expect \<lparr>req_verb = POST, req_url = base_url c @ ''/groups'', req_headers = headers c,
                       req_params = [], req_json = Some (JObj payload), req_file = None,
                       req_timeout = 15\<rparr>
           [200, 201] parsed n)"

definition create_project :: "gitlab_client \<Rightarrow> string \<Rightarrow> json \<Rightarrow> net \<Rightarrow> (error + result) \<times> net" where
  "create_project c name namespace_id n =
     (let payload = [(''name'', JStr (strip name))];
          payload = (if truthy namespace_id then payload @ [(''namespace_id'', namespace_id)]
                     else payload)
      in send_expect \<lparr>req_verb = POST, req_url = base_url c @ ''/projects'', req_headers = headers c,
                       req_params = [], req_json = Some (JObj payload), req_file = None,
                       req_timeout = 20\<rparr>
           [200, 201] parsed n)"

definition list_projects_in_group :: "gitlab_client \<Rightarrow> int \<Rightarrow> net \<Rightarrow> (error + result) \<times> net" where
  "list_projects_in_group c group_id n =
     send_expect \<lparr>req_verb = GET, req_url = base_url c @ ''/groups/'' @ str_int group_id @ ''/projects'',
                  req_headers = headers c, req_params = [(''per_page'', str_int 100)],
                  req_json = None, req_file = None, req_timeout = 20\<rparr>
       [200] parsed n"

definition list_repository_tree ::
  "gitlab_client \<Rightarrow> int \<Rightarrow> string \<Rightarrow> string \<Rightarrow> net \<Rightarrow> (error + result) \<times> net" where
  "list_repository_tree c project_id path ref n =
     (let params = [(''per_page'', str_int 100)];
          params = (if path \<noteq> [] then AList.update ''path'' path params else params);
          params = (if ref \<noteq> [] then AList.update ''ref'' ref params else params)
      in send_expect \<lparr>req_verb = GET,
                       req_url = base_url c @ ''/projects/'' @ str_int project_id @ ''/repository/tree'',
                       req_headers = headers c, req_params = params,
                       req_json = None, req_file = None, req_timeout = 20\<rparr>
           [200] parsed n)"

text \<open>
  \<^verbatim>\<open>urllib.parse.quote_plus\<close>: letters, digits and \<^verbatim>\<open>_.-~\<close> stay, a space becomes
  \<^verbatim>\<open>+\<close>, every other character becomes the \<^verbatim>\<open>%XX\<close> of its UTF-8 bytes.
\<close>

definition hexdig :: "nat \<Rightarrow> char" where
  "hexdig d = (if d < 10 then char_of (48 + d) else char_of (55 + d))"

definition pct :: "nat \<Rightarrow> string" where
  "pct b = [CHR ''%'', hexdig (b div 16), hexdig (b mod 16)]"

definition utf8_char :: "char \<Rightarrow> nat list" where
  "utf8_char c = (let n = (of_char c :: nat) in
     if n < 128 then [n] else [192 + n div 64, 128 + n mod 64])"

definition unreserved :: "char \<Rightarrow> bool" where
  "unreserved c = (let n = (of_char c :: nat) in
     (65 \<le> n \<and> n \<le> 90) \<or> (97 \<le> n \<and> n \<le> 122) \<or> (48 \<le> n \<and> n \<le> 57)
     \<or> c = CHR ''_'' \<or> c = CHR ''.'' \<or> c = CHR ''-'' \<or> c = CHR ''~'')"

definition quote_char :: "char \<Rightarrow> string" where
  "quote_char c = (if c = CHR '' '' then ''+''
                   else if unreserved c then [c]
                   else concat (map pct (utf8_char c)))"

definition quote_plus :: "string \<Rightarrow> string" where
  "quote_plus s = concat (map quote_char s)"

definition raw :: "response \<Rightarrow> error + result" where
  "raw r = Inr (Raw (resp_content r))"

definition get_file_raw ::
  "gitlab_client \<Rightarrow> int \<Rightarrow> string \<Rightarrow> string \<Rightarrow> net \<Rightarrow> (error + result) \<times> net" where
  "get_file_raw c project_id file_path ref n =
     (let encoded = quote_plus file_path
      in send_expect \<lparr>req_verb = GET,
                       req_url = base_url c @ ''/projects/'' @ str_int project_id
                                 @ ''/repository/files/'' @ encoded @ ''/raw'',
                       req_headers = headers c, req_params = [(''ref'', ref)],
                       req_json = None, req_file = None, req_timeout = 30\<rparr>
           [200] raw n)"

text \<open>
  What \<^verbatim>\<open>os.path.exists\<close> and \<^verbatim>\<open>open(path, 'rb')\<close> find at a path of the local disk:
  nothing, something that cannot be opened for reading (a directory, a file without the
  permission), or a file that opens. \<^verbatim>\<open>upload_file\<close> raises \<open>FileNotFoundError\<close> itself
  on the first and \<^verbatim>\<open>open\<close> raises \<open>OSError\<close> on the second, both before anything is
  sent.
\<close>

datatype path_state = Missing | Unreadable | Readable

definition upload_file ::
  "(string \<Rightarrow> path_state) \<Rightarrow> gitlab_client \<Rightarrow> int \<Rightarrow> string \<Rightarrow> net \<Rightarrow> (error + result) \<times> net" where
  "upload_file disk c project_id file_path n =
     (case disk file_path of
        Missing \<Rightarrow> (Inl FileNotFoundError, n)
      | Unreadable \<Rightarrow> (Inl OSError, n)
      | Readable \<Rightarrow>
          send_expect \<lparr>req_verb = POST,
                        req_url = base_url c @ ''/projects/'' @ str_int project_id @ ''/uploads'',
                        req_headers = headers c, req_params = [],
                        req_json = None, req_file = Some file_path, req_timeout = 60\<rparr>
            [200, 201] parsed n)"

definition commit_files ::
  "gitlab_client \<Rightarrow> int \<Rightarrow> json \<Rightarrow> json \<Rightarrow> json \<Rightarrow> net \<Rightarrow> (error + result) \<times> net" where
  "commit_files c project_id branch commit_message actions n =
     (let payload = [(''branch'', branch), (''commit_message'', commit_message),
                     (''actions'', actions)]
      in send_expect \<lparr>req_verb = POST,
                       req_url = base_url c @ ''/projects/'' @ str_int project_id
                                 @ ''/repository/commits'',
                       req_headers = headers c, req_params = [],
                       req_json = Some (JObj payload), req_file = None, req_timeout = 60\<rparr>
           [200, 201] parsed n)"

text \<open>
  The two upload buttons of the window post by themselves, without \<^verbatim>\<open>upload_file\<close>:
  the headers lose \<^verbatim>\<open>Content-Type\<close>, and \<^verbatim>\<open>ProgressFile\<close> opens the file before the
  post, so a path that is missing or cannot be opened raises and nothing is sent.
\<close>

definition action_upload_post ::
  "(string \<Rightarrow> path_state) \<Rightarrow> gitlab_client \<Rightarrow> int \<Rightarrow> string \<Rightarrow> nat \<Rightarrow> net
     \<Rightarrow> (error + result) \<times> net" where
  "action_upload_post disk c current_project_id fn timeout n =
     (case disk fn of
        Missing \<Rightarrow> (Inl FileNotFoundError, n)
      | Unreadable \<Rightarrow> (Inl OSError, n)
      | Readable \<Rightarrow>
          send_expect \<lparr>req_verb = POST,
                        req_url = base_url c @ ''/projects/'' @ str_int current_project_id
                                  @ ''/uploads'',
                        req_headers = AList.delete ''Content-Type'' (headers c), req_params = [],
                        req_json = None, req_file = Some fn, req_timeout = timeout\<rparr>
            [200, 201] parsed n)"

subsection \<open>All the calls of the program that reach the network\<close>

datatype client_op =
    Test
  | ListGroups
  | CreateGroup string json
  | CreateProject string json
  | ListProjectsInGroup int
  | ListRepositoryTree int string string
  | GetFileRaw int string string
  | UploadFile int string
  | CommitFiles int json json json

text \<open>
  Running a method: \<open>None\<close> when it never returns (the paged loop on a server that
  always has a next page), otherwise what it returned or raised, and the network after.
\<close>

fun run_op ::
  "(string \<Rightarrow> path_state) \<Rightarrow> gitlab_client \<Rightarrow> client_op \<Rightarrow> net \<Rightarrow> ((error + result) \<times> net) option" where
  "run_op disk c Test n = Some (test c n)"
| "run_op disk c ListGroups n =
     map_option (\<lambda>(r, n'). (map_sum id (\<lambda>xs. Parsed (JArr xs)) r, n')) (list_groups c n)"
| "run_op disk c (CreateGroup name parent_id) n = Some (create_group c name parent_id n)"
| "run_op disk c (CreateProject name namespace_id) n = Some (create_project c name namespace_id n)"
| "run_op disk c (ListProjectsInGroup gid) n = Some (list_projects_in_group c gid n)"
| "run_op disk c (ListRepositoryTree pid path ref) n = Some (list_repository_tree c pid path ref n)"
| "run_op disk c (GetFileRaw pid path ref) n = Some (get_file_raw c pid path ref n)"
| "run_op disk c (UploadFile pid path) n = Some (upload_file disk c pid path n)"
| "run_op disk c (CommitFiles pid b m a) n = Some (commit_files c pid b m a n)"

text \<open>The statuses each method takes as success, and what it returns then.\<close>

fun accepted :: "client_op \<Rightarrow> int list" where
  "accepted Test = [200]"
| "accepted ListGroups = [200]"
| "accepted (CreateGroup name parent_id) = [200, 201]"
| "accepted (CreateProject name namespace_id) = [200, 201]"
| "accepted (ListProjectsInGroup gid) = [200]"
| "accepted (ListRepositoryTree pid path ref) = [200]"
| "accepted (GetFileRaw pid path ref) = [200]"
| "accepted (UploadFile pid path) = [200, 201]"
| "accepted (CommitFiles pid b m a) = [200, 201]"

fun returned :: "client_op \<Rightarrow> response \<Rightarrow> error + result" where
  "returned (GetFileRaw pid path ref) r = raw r"
| "returned op r = parsed r"

text \<open>\<^verbatim>\<open>upload_file\<close> sends its request only when the file opens.\<close>

fun file_opens :: "(string \<Rightarrow> path_state) \<Rightarrow> client_op \<Rightarrow> bool" where
  "file_opens disk (UploadFile pid path) = (disk path = Readable)"
| "file_opens disk op = True"

text \<open>A success status of HTTP: 2xx.\<close>

definition is_success :: "int \<Rightarrow> bool" where
  "is_success s = (200 \<le> s \<and> s < 300)"

text \<open>
  What a reply does to the paged loop, read off \<open>paged_body\<close>: whether the loop asks for
  the next page, and the entries the reply adds to the result.
\<close>

definition continues :: "reply \<Rightarrow> bool" where
  "continues rp = (case paged_body rp [] of Inr (go_on, xs) \<Rightarrow> go_on | Inl e \<Rightarrow> False)"

definition entries :: "reply \<Rightarrow> json list" where
  "entries rp = (case paged_body rp [] of Inr (go_on, xs) \<Rightarrow> xs | Inl e \<Rightarrow> [])"

text \<open>The eight endpoints of the GitLab API, with their placeholders.\<close>

datatype endpoint =
    User
  | Groups
  | Projects
  | GroupProjects string
  | RepositoryTree string
  | FileRaw string string
  | Uploads string
  | Commits string

fun path_of :: "endpoint \<Rightarrow> string" where
  "path_of User = ''/user''"
| "path_of Groups = ''/groups''"
| "path_of Projects = ''/projects''"
| "path_of (GroupProjects gid) = ''/groups/'' @ gid @ ''/projects''"
| "path_of (RepositoryTree pid) = ''/projects/'' @ pid @ ''/repository/tree''"
| "path_of (FileRaw pid path) = ''/projects/'' @ pid @ ''/repository/files/'' @ path @ ''/raw''"
| "path_of (Uploads pid) = ''/projects/'' @ pid @ ''/uploads''"
| "path_of (Commits pid) = ''/projects/'' @ pid @ ''/repository/commits''"

text \<open>
  Every place of the program that calls \<^verbatim>\<open>requests.get\<close> or \<^verbatim>\<open>requests.post\<close>: the
  nine methods of the client and the two upload buttons (\<open>timeout\<close> 120 for a file, 180
  for a zipped folder).
\<close>

datatype call = Method client_op | ActionUpload int string nat

fun issue ::
  "(string \<Rightarrow> path_state) \<Rightarrow> gitlab_client \<Rightarrow> call \<Rightarrow> net \<Rightarrow> ((error + result) \<times> net) option" where
  "issue disk c (Method op) n = run_op disk c op n"
| "issue disk c (ActionUpload pid fn timeout) n = Some (action_upload_post disk c pid fn timeout n)"

fun endpoint_of :: "call \<Rightarrow> endpoint" where
  "endpoint_of (Method Test) = User"
| "endpoint_of (Method ListGroups) = Groups"
| "endpoint_of (Method (CreateGroup name parent_id)) = Groups"
| "endpoint_of (Method (CreateProject name namespace_id)) = Projects"
| "endpoint_of (Method (ListProjectsInGroup gid)) = GroupProjects (str_int gid)"
| "endpoint_of (Method (ListRepositoryTree pid path ref)) = RepositoryTree (str_int pid)"
| "endpoint_of (Method (GetFileRaw pid path ref)) = FileRaw (str_int pid) (quote_plus path)"
| "endpoint_of (Method (UploadFile pid path)) = Uploads (str_int pid)"
| "endpoint_of (Method (CommitFiles pid b m a)) = Commits (str_int pid)"
| "endpoint_of (ActionUpload pid fn timeout) = Uploads (str_int pid)"

section \<open>The window\<close>

subsection \<open>Rendering values\<close>

text \<open>
  \<^verbatim>\<open>repr\<close> of a string, for code points below 256: single quotes unless the string has
  a single quote and no double quote; the quote and the backslash are escaped, tab,
  newline and return have their letters, other characters that do not print become
  \<^verbatim>\<open>\xNN\<close>.
\<close>

definition printable :: "char \<Rightarrow> bool" where
  "printable c = (let n = (of_char c :: nat) in (32 \<le> n \<and> n < 127) \<or> (161 \<le> n \<and> n \<noteq> 173))"

definition lower_hexdig :: "nat \<Rightarrow> char" where
  "lower_hexdig d = (if d < 10 then char_of (48 + d) else char_of (87 + d))"

definition repr_char :: "char \<Rightarrow> char \<Rightarrow> string" where
  "repr_char q c =
     (if c = q \<or> c = CHR 0x5C then [CHR 0x5C, c]
      else if c = CHR 0x09 then [CHR 0x5C, CHR ''t'']
      else if c = CHR 0x0A then [CHR 0x5C, CHR ''n'']
      else if c = CHR 0x0D then [CHR 0x5C, CHR ''r'']
      else if printable c then [c]
      else [CHR 0x5C, CHR ''x'', lower_hexdig (of_char c div 16), lower_hexdig (of_char c mod 16)])"

definition repr_str :: "string \<Rightarrow> string" where
  "repr_str s =
     (let q = (if CHR 0x27 \<in> set s \<and> CHR 0x22 \<notin> set s then CHR 0x22 else CHR 0x27)
      in q # concat (map (repr_char q) s) @ [q])"

fun join :: "string \<Rightarrow> string list \<Rightarrow> string" where
  "join sep [] = []"
| "join sep [x] = x"
| "join sep (x # y # ys) = x @ sep @ join sep (y # ys)"

fun py_repr :: "json \<Rightarrow> string" where
  "py_repr JNull = ''None''"
| "py_repr (JBool b) = (if b then ''True'' else ''False'')"
| "py_repr (JInt i) = str_int i"
| "py_repr (JStr s) = repr_str s"
| "py_repr (JArr xs) = ''['' @ join '', '' (map py_repr xs) @ '']''"
| "py_repr (JObj kvs) =
     ''{'' @ join '', '' (map (\<lambda>kv. repr_str (fst kv) @ '': '' @ py_repr (snd kv)) kvs) @ ''}''"

text \<open>\<^verbatim>\<open>str(x)\<close>, which an f-string applies: a string is itself.\<close>

fun py_str :: "json \<Rightarrow> string" where
  "py_str (JStr s) = s"
| "py_str v = py_repr v"

subsection \<open>The Treeview\<close>

text \<open>
  The tree widget holds items, each with its identifier, text, values and children in
  order; the widget is the list of the items under the root \<^verbatim>\<open>''\<close>. An identifier is
  used once in the whole tree: \<^verbatim>\<open>insert\<close> with one that exists raises \<open>TclError\<close>,
  and so does a parent that does not exist. A text of \<^verbatim>\<open>None\<close> reaches Tk as the
  option \<^verbatim>\<open>-text\<close> without its value, a list of options that Tk refuses: no item is
  made.
\<close>

datatype node =
  Node (node_iid: string) (node_text: json) (node_values: "(string \<times> json) option")
       (node_children: "node list")

fun iids :: "node \<Rightarrow> string list" where
  "iids (Node i t v cs) = i # concat (map iids cs)"

definition tree_exists :: "string \<Rightarrow> node list \<Rightarrow> bool" where
  "tree_exists i forest = (i \<in> set (concat (map iids forest)))"

fun insert_under :: "string \<Rightarrow> node \<Rightarrow> node \<Rightarrow> node" where
  "insert_under p new (Node i t v cs) =
     (if i = p then Node i t v (cs @ [new]) else Node i t v (map (insert_under p new) cs))"

definition tree_insert ::
  "string \<Rightarrow> string \<Rightarrow> json \<Rightarrow> (string \<times> json) option \<Rightarrow> node list \<Rightarrow> error + node list" where
  "tree_insert parent i t v forest =
     (if t = JNull then Inl TclError
      else if parent \<noteq> [] \<and> \<not> tree_exists parent forest then Inl TclError
      else if tree_exists i forest then Inl TclError
      else if parent = [] then Inr (forest @ [Node i t v []])
      else Inr (map (insert_under parent (Node i t v [])) forest))"

subsection \<open>What the window does besides computing\<close>

text \<open>
  Each call that leaves the program's own data is recorded with the thread that makes
  it: the thread of the Tk main loop (button commands, callbacks given to
  \<^verbatim>\<open>after\<close>), a thread started by \<^verbatim>\<open>threading.Thread(target=task)\<close>, or the thread of
  the log worker. The texts of the messages are in Vietnamese in the source; a message is
  kept as its kind and the values formatted into it.
\<close>

datatype thread = MainThread | TaskThread | LogThread

datatype message =
    NeedToken
  | NeedRequests
  | NeedLogin
  | LoggingIn
  | LoginOk json
  | LoginStatus json
  | TokenSaved
  | LoginError error
  | ErrorText error
  | LoginFailed
  | LoadingGroups
  | GroupsLoaded nat
  | GroupsDone
  | GroupsError error
  | GroupsFailed
  | CacheSaved
  | CacheSavedInfo
  | CacheSaveError error
  | CacheLoaded
  | CacheLoadError error

datatype action =
    SetStatus message
  | ShowError message
  | ShowInfo message
  | LogPut message
  | LogAreaInsert message
  | TreeGetChildren
  | TreeDelete "string list"
  | TreeInsert string string
  | SaveToken string

text \<open>The calls that read or change a widget, and those on the Treeview among them.\<close>

fun touches_tree :: "action \<Rightarrow> bool" where
  "touches_tree TreeGetChildren = True"
| "touches_tree (TreeDelete items) = True"
| "touches_tree (TreeInsert parent i) = True"
| "touches_tree a = False"

fun touches_widget :: "action \<Rightarrow> bool" where
  "touches_widget (LogPut m) = False"
| "touches_widget (SaveToken t) = False"
| "touches_widget a = True"

subsection \<open>Saved token and cache file\<close>

text \<open>
  What is on the machine: whether the \<^verbatim>\<open>keyring\<close> module could be imported and the
  password it holds, the token file and the cache file (\<open>None\<close>: no such file),
  whether opening the token file for writing fails, whether removing it fails (the two are
  apart: the first is a matter of the file, the second of its directory), and whether
  opening the cache file for writing fails. The cache file is read by
  \<^verbatim>\<open>json.load\<close> only: its content is the document it decodes to, or text that is not
  JSON; \<^verbatim>\<open>json.dump\<close> writes the document that \<^verbatim>\<open>json.load\<close> reads back.
\<close>

datatype cache_doc = NotJson | Doc json

record storage =
  KEYRING_AVAILABLE :: bool
  keyring_password :: "string option"
  token_file :: "string option"
  token_file_unwritable :: bool
  token_file_unremovable :: bool
  cache_file :: "cache_doc option"
  cache_file_locked :: bool

text \<open>
  \<^verbatim>\<open>token.encode('utf-8')\<close> and \<^verbatim>\<open>.decode('utf-8')\<close>, for strings of code points below
  256: one byte below 128, two bytes from 128 on. Bytes that are not UTF-8, and bytes that
  decode to a code point from 256 on, give \<open>None\<close> (the first is
  \<^verbatim>\<open>UnicodeDecodeError\<close>, the second is outside the model).
\<close>

definition utf8_encode :: "string \<Rightarrow> nat list" where
  "utf8_encode s = concat (map utf8_char s)"


text \<open>
  \<^verbatim>\<open>base64.b64encode\<close> and \<^verbatim>\<open>base64.b64decode\<close>. The decoder is
  \<^verbatim>\<open>binascii.a2b_base64\<close> as \<^verbatim>\<open>b64decode\<close> calls it (not strict): it reads the
  characters in order and keeps the position in the group of four, the bits left over
  and the number of padding characters seen since the last data character. A character
  outside the alphabet is skipped; a padding character ends the input when it completes
  a group of four and is skipped otherwise; at the end of the input an unfinished group
  raises \<^verbatim>\<open>binascii.Error\<close> (\<open>None\<close>).
\<close>

definition b64_alphabet :: string where
  "b64_alphabet = ''ABCDEFGHIJKLMNOPQRSTUVWXYZabcdefghijklmnopqrstuvwxyz0123456789+/''"

definition b64_char :: "nat \<Rightarrow> char" where
  "b64_char i = b64_alphabet ! (i mod 64)"



fun b64encode :: "nat list \<Rightarrow> string" where
  "b64encode [] = []"
| "b64encode [a] = [b64_char (a div 4), b64_char ((a mod 4) * 16), CHR ''='', CHR ''='']"
| "b64encode [a, b] =
     [b64_char (a div 4), b64_char ((a mod 4) * 16 + b div 16), b64_char ((b mod 16) * 4),
      CHR ''='']"
| "b64encode (a # b # c # rest) =
     [b64_char (a div 4), b64_char ((a mod 4) * 16 + b div 16),
      b64_char ((b mod 16) * 4 + c div 64), b64_char (c mod 64)] @ b64encode rest"



text \<open>
  The three functions of the program. With the keyring the password is kept there
  (\<^verbatim>\<open>keyring.delete_password\<close> raises when there is none). Without it the token is
  written to the token file in base64; a failure to write makes \<^verbatim>\<open>save_token\<close> return
  \<open>False\<close>, a failure of \<^verbatim>\<open>os.remove\<close> is passed over (\<^verbatim>\<open>except Exception: pass\<close>).
  In \<^verbatim>\<open>load_token\<close> every exception gives \<open>None\<close>: \<^verbatim>\<open>b.encode('ascii')\<close> on a
  character from 128 on, the decoder, the UTF-8 decoding.
\<close>

definition save_token :: "string \<Rightarrow> storage \<Rightarrow> bool \<times> storage" where
  "save_token tok s =
     (if KEYRING_AVAILABLE s then (True, s\<lparr>keyring_password := Some tok\<rparr>)
      else if token_file_unwritable s then (False, s)
      else (True, s\<lparr>token_file := Some (b64encode (utf8_encode tok))\<rparr>))"



subsection \<open>The application object\<close>

text \<open>
  The fields of \<^verbatim>\<open>GitLabGUIApp\<close> that the functions below read or write, the two Tk
  variables of the login row, the two module constants, and the machine and the network
  the object lives on. \<^verbatim>\<open>_all_groups\<close>, \<^verbatim>\<open>_load_cache\<close> and \<^verbatim>\<open>_paged_get\<close> are written
  without the leading underscore.
\<close>

record app =
  client :: "gitlab_client option"
  user_info :: "json option"
  token :: "string option"
  all_groups :: json
  last_parent_name :: json
  last_subgroup_name :: json
  tree :: "node list"
  token_var :: string
  save_token_var :: bool
  log_queue :: "message list"
  REQUESTS_AVAILABLE :: bool
  BASE_URL :: string
  store :: storage
  network :: net
  trace :: "(thread \<times> action) list"

definition called :: "thread \<Rightarrow> action \<Rightarrow> app \<Rightarrow> app" where
  "called th a g = g\<lparr>trace := trace g @ [(th, a)]\<rparr>"

text \<open>\<^verbatim>\<open>self.log(text)\<close> puts the line on the queue (the time stamp is left out).\<close>

definition log :: "thread \<Rightarrow> message \<Rightarrow> app \<Rightarrow> app" where
  "log th m g = (called th (LogPut m) g)\<lparr>log_queue := log_queue g @ [m]\<rparr>"

text \<open>
  The worker of \<^verbatim>\<open>_start_log_worker\<close> takes the lines off the queue and writes each
  into the log area itself.
\<close>

definition log_worker :: "app \<Rightarrow> app" where
  "log_worker g = g\<lparr>log_queue := [],
     trace := trace g @ map (\<lambda>m. (LogThread, LogAreaInsert m)) (log_queue g)\<rparr>"

subsection \<open>Building the roots of the tree\<close>

text \<open>\<^verbatim>\<open>[g for g in groups if not g.get('parent_id')]\<close>\<close>

fun root_groups :: "json list \<Rightarrow> error + json list" where
  "root_groups [] = Inr []"
| "root_groups (x # xs) =
     (case py_get x ''parent_id'' of
        Inl e \<Rightarrow> Inl e
      | Inr p \<Rightarrow>
          (case root_groups xs of
             Inl e \<Rightarrow> Inl e
           | Inr rs \<Rightarrow> Inr (if \<not> truthy p then x # rs else rs)))"

text \<open>\<^verbatim>\<open>sorted(roots, key=lambda x: x.get('name','').lower())\<close>: the keys first, then a stable sort.\<close>

definition name_key :: "json \<Rightarrow> error + string" where
  "name_key x =
     (case py_get_default x ''name'' (JStr []) of
        Inl e \<Rightarrow> Inl e
      | Inr (JStr s) \<Rightarrow> Inr (lower s)
      | Inr _ \<Rightarrow> Inl AttributeError)"

fun name_keys :: "json list \<Rightarrow> error + string list" where
  "name_keys [] = Inr []"
| "name_keys (x # xs) =
     (case name_key x of
        Inl e \<Rightarrow> Inl e
      | Inr k \<Rightarrow> (case name_keys xs of Inl e \<Rightarrow> Inl e | Inr ks \<Rightarrow> Inr (k # ks)))"

definition sorted_by_name :: "json list \<Rightarrow> error + json list" where
  "sorted_by_name xs =
     (case name_keys xs of
        Inl e \<Rightarrow> Inl e
      | Inr ks \<Rightarrow> Inr (map snd (sort_key fst (zip ks xs))))"

text \<open>The text of the placeholder child, without its diacritics.\<close>

definition dummy_text :: string where
  "dummy_text = ''(mo de tai...)''"

text \<open>
  The \<^verbatim>\<open>for rg in sorted(...)\<close> loop: two inserts for each root. The first component is
  the exception that ended the loop, if any; the items inserted before it stay.
\<close>

fun insert_roots :: "thread \<Rightarrow> json list \<Rightarrow> app \<Rightarrow> error option \<times> app" where
  "insert_roots th [] g = (None, g)"
| "insert_roots th (rg # rest) g =
     (case py_get rg ''id'' of
        Inl e \<Rightarrow> (Some e, g)
      | Inr gid \<Rightarrow>
          (case py_get rg ''name'' of
             Inl e \<Rightarrow> (Some e, g)
           | Inr name \<Rightarrow>
               (let iid = ''group_'' @ py_str gid;
                    g1 = called th (TreeInsert [] iid) g
                in case tree_insert [] iid name (Some (''group'', gid)) (tree g1) of
                     Inl e \<Rightarrow> (Some e, g1)
                   | Inr t1 \<Rightarrow>
                       (let g2 = called th (TreeInsert iid (iid @ ''_dummy'')) (g1\<lparr>tree := t1\<rparr>)
                        in case tree_insert iid (iid @ ''_dummy'') (JStr dummy_text) None (tree g2) of
                             Inl e \<Rightarrow> (Some e, g2)
                           | Inr t2 \<Rightarrow> insert_roots th rest (g2\<lparr>tree := t2\<rparr>)))))"

text \<open>
  The lines that \<^verbatim>\<open>populate_groups\<close> and \<^verbatim>\<open>_load_cache\<close> share: empty the tree, pick
  the roots, sort them, insert them.
\<close>

definition rebuild_tree :: "thread \<Rightarrow> json \<Rightarrow> app \<Rightarrow> error option \<times> app" where
  "rebuild_tree th groups g =
     (let g1 = called th TreeGetChildren g;
          g2 = (called th (TreeDelete (map node_iid (tree g1))) g1)\<lparr>tree := []\<rparr>
      in case py_iter groups of
           Inl e \<Rightarrow> (Some e, g2)
         | Inr gs \<Rightarrow>
             (case root_groups gs of
                Inl e \<Rightarrow> (Some e, g2)
              | Inr roots \<Rightarrow>
                  (case sorted_by_name roots of
                     Inl e \<Rightarrow> (Some e, g2)
                   | Inr srt \<Rightarrow> insert_roots th srt g2)))"

subsection \<open>populate\_groups\<close>

definition populate_failed :: "error \<Rightarrow> app \<Rightarrow> app" where
  "populate_failed e g =
     called TaskThread (SetStatus GroupsFailed)
       (called TaskThread (ShowError (GroupsError e)) (log TaskThread (GroupsError e) g))"

definition populate_task :: "gitlab_client \<Rightarrow> app \<Rightarrow> app option" where
  "populate_task c g =
     (let g1 = called TaskThread (SetStatus LoadingGroups) g
      in case list_groups c (network g1) of
           None \<Rightarrow> None
         | Some (Inl e, n') \<Rightarrow> Some (populate_failed e (g1\<lparr>network := n'\<rparr>))
         | Some (Inr groups, n') \<Rightarrow>
             (let g2 = log TaskThread (GroupsLoaded (length groups))
                         (g1\<lparr>network := n', all_groups := JArr groups\<rparr>)
              in case rebuild_tree TaskThread (JArr groups) g2 of
                   (Some e, g3) \<Rightarrow> Some (populate_failed e g3)
                 | (None, g3) \<Rightarrow> Some (called TaskThread (SetStatus GroupsDone) g3)))"

text \<open>\<open>th\<close> is the thread that calls \<^verbatim>\<open>populate_groups\<close>; the task runs on its own.\<close>

definition populate_groups :: "thread \<Rightarrow> app \<Rightarrow> app option" where
  "populate_groups th g =
     (case client g of
        None \<Rightarrow> Some (called th (ShowError NeedLogin) g)
      | Some c \<Rightarrow> populate_task c g)"

subsection \<open>on\_login\<close>

fun as_json :: "result \<Rightarrow> json" where
  "as_json (Parsed v) = v"
| "as_json (Raw s) = JStr s"

definition login_failed :: "error \<Rightarrow> app \<Rightarrow> app" where
  "login_failed e g =
     called TaskThread (SetStatus LoginFailed)
       (called TaskThread (ShowError (ErrorText e)) (log TaskThread (LoginError e) g))"

definition login_task :: "string \<Rightarrow> app \<Rightarrow> app option" where
  "login_task tok g =
     (let g1 = called TaskThread (SetStatus LoggingIn) g;
          c = GitLabClient (Some tok) (BASE_URL g1)
      in case test c (network g1) of
           (Inl e, n') \<Rightarrow> Some (login_failed e (g1\<lparr>network := n'\<rparr>))
         | (Inr res, n') \<Rightarrow>
             (let user = as_json res;
                  g2 = g1\<lparr>network := n', client := Some c, user_info := Some user,
                          token := Some tok\<rparr>
              in case py_get user ''name'' of
                   Inl e \<Rightarrow> Some (login_failed e g2)
                 | Inr name \<Rightarrow>
                     (let g3 = called TaskThread (SetStatus (LoginStatus name))
                                 (log TaskThread (LoginOk name) g2);
                          g4 = (if save_token_var g3
                                then (let g' = called TaskThread (SaveToken tok) g3;
                                          saved = save_token tok (store g');
                                          g'' = g'\<lparr>store := snd saved\<rparr>
                                      in if fst saved then log TaskThread TokenSaved g'' else g'')
                                else g3)
                      in populate_groups TaskThread g4)))"

definition on_login :: "app \<Rightarrow> app option" where
  "on_login g =
     (let tok = strip (token_var g)
      in if tok = [] then Some (called MainThread (ShowError NeedToken) g)
         else if \<not> REQUESTS_AVAILABLE g then Some (called MainThread (ShowError NeedRequests) g)
         else login_task tok g)"

subsection \<open>The cache\<close>



subsection \<open>Reading a group\<close>

text \<open>
  The words of the claims about the tree: the field of a group (\<open>JNull\<close> when it is not
  there), the key a root is sorted by, the item a root becomes with its placeholder
  child, and the identifiers the loop inserts.
\<close>

definition field :: "json \<Rightarrow> string \<Rightarrow> json" where
  "field x k = (case py_get x k of Inl e \<Rightarrow> JNull | Inr v \<Rightarrow> v)"

definition is_root :: "json \<Rightarrow> bool" where
  "is_root x = (\<not> truthy (field x ''parent_id''))"

definition lower_name :: "json \<Rightarrow> string" where
  "lower_name x = (case name_key x of Inl e \<Rightarrow> [] | Inr k \<Rightarrow> k)"

definition root_iid :: "json \<Rightarrow> string" where
  "root_iid x = ''group_'' @ py_str (field x ''id'')"

definition root_node :: "json \<Rightarrow> node" where
  "root_node x =
     Node (root_iid x) (field x ''name'') (Some (''group'', field x ''id''))
       [Node (root_iid x @ ''_dummy'') (JStr dummy_text) None []]"

text \<open>The two calls of \<^verbatim>\<open>insert\<close> that the loop makes for each root, in order.\<close>

definition insert_calls :: "thread \<Rightarrow> json list \<Rightarrow> (thread \<times> action) list" where
  "insert_calls th xs =
     concat (map (\<lambda>x. [(th, TreeInsert [] (root_iid x)),
                        (th, TreeInsert (root_iid x) (root_iid x @ ''_dummy''))]) xs)"

definition root_iids :: "json list \<Rightarrow> string list" where
  "root_iids xs = concat (map (\<lambda>x. [root_iid x, root_iid x @ ''_dummy'']) xs)"

fun is_object :: "json \<Rightarrow> bool" where
  "is_object (JObj kvs) = True"
| "is_object x = False"

fun has_name :: "json \<Rightarrow> bool" where
  "has_name (JObj kvs) = (case map_of kvs ''name'' of Some (JStr s) \<Rightarrow> True | _ \<Rightarrow> False)"
| "has_name x = False"

text \<open>The words of C4: the field \<^verbatim>\<open>parent_id\<close> is absent or null.\<close>

fun parent_absent_or_null :: "json \<Rightarrow> bool" where
  "parent_absent_or_null (JObj kvs) =
     (case map_of kvs ''parent_id'' of None \<Rightarrow> True | Some JNull \<Rightarrow> True | Some v \<Rightarrow> False)"
| "parent_absent_or_null x = False"

text \<open>The reply that makes the validation request of \<^verbatim>\<open>on_login\<close> raise.\<close>

fun validation_raises :: "reply \<Rightarrow> bool" where
  "validation_raises Failed = True"
| "validation_raises (Replied r) = (status_code r \<noteq> 200 \<or> resp_json r = None)"

definition is_save_token :: "action \<Rightarrow> bool" where
  "is_save_token a = (case a of SaveToken t \<Rightarrow> True | _ \<Rightarrow> False)"

text \<open>A reply that serves the page \<open>xs\<close>: status 200 and a JSON array as body.\<close>

definition serves_page :: "reply \<Rightarrow> json list \<Rightarrow> bool" where
  "serves_page rp xs =
     (case rp of Failed \<Rightarrow> False
      | Replied r \<Rightarrow> status_code r = 200 \<and> resp_json r = Some (JArr xs))"

section \<open>Concrete inputs\<close>

text \<open>Small concrete inputs on which the theorems below are run.\<close>

definition demo_client :: gitlab_client where
  "demo_client = GitLabClient (Some ''glpat-x'') ''https://git.example/api/v4/''"

definition json_reply :: "int \<Rightarrow> string \<Rightarrow> json \<Rightarrow> reply" where
  "json_reply s t v = Replied \<lparr>status_code = s, resp_text = t, resp_content = t, resp_json = Some v\<rparr>"

definition full_page :: "json list" where
  "full_page = replicate 100 (JObj [(''id'', JInt 1), (''name'', JStr ''g'')])"

definition two_pages :: net where
  "two_pages = \<lparr>replies = (\<lambda>i. if i = 0 then json_reply 200 ''p1'' (JArr full_page)
                                else json_reply 200 ''[]'' (JArr [])), sent = []\<rparr>"

definition over_page :: "json list" where
  "over_page = replicate 101 (JObj [(''id'', JInt 1), (''name'', JStr ''g'')])"

definition over_pages :: net where
  "over_pages = \<lparr>replies = (\<lambda>i. if i = 0 then json_reply 200 ''p1'' (JArr over_page)
                                else json_reply 200 ''[]'' (JArr [])), sent = []\<rparr>"

definition demo_groups :: "json list" where
  "demo_groups =
     [JObj [(''id'', JInt 2), (''name'', JStr ''beta''), (''parent_id'', JNull)],
      JObj [(''id'', JInt 1), (''name'', JStr ''Alpha'')],
      JObj [(''id'', JInt 3), (''name'', JStr ''sub''), (''parent_id'', JInt 2)],
      JObj [(''id'', JInt 4), (''name'', JStr ''Zero''), (''parent_id'', JInt 0)]]"

definition demo_net :: net where
  "demo_net = \<lparr>replies = (\<lambda>i. json_reply 200 ''groups'' (JArr demo_groups)), sent = []\<rparr>"

definition demo_storage :: storage where
  "demo_storage = \<lparr>KEYRING_AVAILABLE = False, keyring_password = None, token_file = None,
     token_file_unwritable = False, token_file_unremovable = False, cache_file = None,
     cache_file_locked = False\<rparr>"

definition demo_app :: app where
  "demo_app = \<lparr>client = Some demo_client, user_info = Some (JObj [(''name'', JStr ''u'')]),
     token = Some ''glpat-x'', all_groups = JArr [], last_parent_name = JNull,
     last_subgroup_name = JNull, tree = [], token_var = ''glpat-x'', save_token_var = True,
     log_queue = [], REQUESTS_AVAILABLE = True, BASE_URL = ''https://git.example/api/v4'',
     store = demo_storage, network = demo_net, trace = []\<rparr>"

definition reject_net :: net where
  "reject_net = \<lparr>replies = (\<lambda>i. json_reply 401 ''{\"message\":\"401 Unauthorized\"}''
                    (JObj [(''message'', JStr ''401 Unauthorized'')])), sent = []\<rparr>"

definition fresh_app :: app where
  "fresh_app = demo_app\<lparr>client := None, user_info := None, token := None,
     token_var := '' glpat-x '', network := reject_net\<rparr>"



definition mixed_groups :: "json list" where
  "mixed_groups =
     [JObj [(''id'', JInt 2), (''name'', JStr ''beta''), (''parent_id'', JNull)],
      JObj [(''id'', JInt 1), (''name'', JStr ''Alpha'')],
      JObj [(''id'', JInt 3), (''name'', JStr ''sub''), (''parent_id'', JInt 2)],
      JObj [(''id'', JInt 4), (''name'', JStr ''Zero''), (''parent_id'', JInt 0)],
      JObj [(''id'', JInt 5), (''name'', JStr ''alpha''), (''parent_id'', JBool False)],
      JObj [(''id'', JInt 6), (''name'', JStr ''Gamma''), (''parent_id'', JStr [])],
      JObj [(''id'', JInt 7), (''name'', JStr ''delta''), (''parent_id'', JArr [])],
      JObj [(''id'', JInt 8), (''name'', JStr ''inner''), (''parent_id'', JStr ''x'')]]"

definition mixed_app :: app where
  "mixed_app = demo_app\<lparr>network :=
     \<lparr>replies = (\<lambda>i. json_reply 200 ''groups'' (JArr mixed_groups)), sent = []\<rparr>\<rparr>"

definition failing_app :: app where
  "failing_app = demo_app\<lparr>network :=
     \<lparr>replies = (\<lambda>i. json_reply 500 ''boom'' JNull), sent = []\<rparr>\<rparr>"

definition login_app :: app where
  "login_app = fresh_app\<lparr>network :=
     \<lparr>replies = (\<lambda>i. if i = 0 then json_reply 200 ''user'' (JObj [(''name'', JStr ''u'')])
                      else json_reply 200 ''groups'' (JArr demo_groups)), sent = []\<rparr>\<rparr>"

section \<open>The client: status handling, requests, pages\<close>


lemma paged_body_acc:
  "paged_body rp res =
     (case paged_body rp [] of Inl e \<Rightarrow> Inl e | Inr (go_on, xs) \<Rightarrow> Inr (go_on, res @ xs))"
  by (simp add: paged_body_def split: reply.splits sum.splits)

lemma paged_loop_step:
  assumes "continues (replies n (length (sent n)))"
  shows "paged_loop c path params page res n =
         paged_loop c path params (page + 1) (res @ entries (replies n (length (sent n))))
           (n\<lparr>sent := sent n @ [page_request c path params page]\<rparr>)"
  using assms
  apply (subst paged_loop.simps)
  apply (subst paged_body_acc)
  apply (simp add: http_def continues_def entries_def split: sum.splits prod.splits)
  done

lemma paged_loop_stop:
  assumes "\<not> continues (replies n (length (sent n)))"
  shows "paged_loop c path params page res n =
         Some (case paged_body (replies n (length (sent n))) [] of
                 Inl e \<Rightarrow> Inl e | Inr (go_on, xs) \<Rightarrow> Inr (res @ xs),
               n\<lparr>sent := sent n @ [page_request c path params page]\<rparr>)"
  using assms
  apply (subst paged_loop.simps)
  apply (subst paged_body_acc)
  apply (simp add: http_def continues_def split: sum.splits prod.splits)
  done

lemma paged_loop_steps:
  assumes "\<forall>j<k. continues (replies n (length (sent n) + j))"
  shows "paged_loop c path params page res n =
         paged_loop c path params (page + k)
           (res @ concat (map (\<lambda>j. entries (replies n (length (sent n) + j))) [0..<k]))
           (n\<lparr>sent := sent n @ map (\<lambda>j. page_request c path params (page + j)) [0..<k]\<rparr>)"
  using assms
proof (induction k)
  case 0
  then show ?case by simp
next
  case (Suc k)
  let ?n = "n\<lparr>sent := sent n @ map (\<lambda>j. page_request c path params (page + j)) [0..<k]\<rparr>"
  have c: "continues (replies ?n (length (sent ?n)))" using Suc.prems by simp
  have "paged_loop c path params page res n =
         paged_loop c path params (page + k)
           (res @ concat (map (\<lambda>j. entries (replies n (length (sent n) + j))) [0..<k])) ?n"
    using Suc by simp
  also have "\<dots> = paged_loop c path params (page + k + 1)
           ((res @ concat (map (\<lambda>j. entries (replies n (length (sent n) + j))) [0..<k]))
              @ entries (replies ?n (length (sent ?n))))
           (?n\<lparr>sent := sent ?n @ [page_request c path params (page + k)]\<rparr>)"
    by (rule paged_loop_step [OF c])
  finally show ?case by simp
qed


lemma send_expect_replied:
  assumes "replies n (length (sent n)) = Replied r"
  shows "send_expect rq ok body n =
         (if status_code r \<in> set ok then body r else Inl (http_error r), n\<lparr>sent := sent n @ [rq]\<rparr>)"
  using assms by (simp add: send_expect_def http_def)

lemma send_expect_sent:
  "sent (snd (send_expect rq ok body n)) = sent n @ [rq]"
  by (simp add: send_expect_def http_def split: reply.splits)

lemma send_expect_replies:
  "replies (snd (send_expect rq ok body n)) = replies n"
  by (simp add: send_expect_def http_def split: reply.splits)

lemma not_success_not_accepted:
  "\<not> is_success s \<Longrightarrow> s \<notin> set (accepted op)"
  by (cases op) (auto simp: is_success_def)

lemma paged_body_rejected:
  "status_code r \<noteq> 200 \<Longrightarrow> paged_body (Replied r) res = Inl (http_error r)"
  by (simp add: paged_body_def)

lemma not_continues_rejected:
  "status_code r \<noteq> 200 \<Longrightarrow> \<not> continues (Replied r)"
  by (simp add: continues_def paged_body_rejected)

lemma run_single_fst:
  assumes "replies n (length (sent n)) = Replied r" and "file_opens disk op" and "op \<noteq> ListGroups"
  shows "map_option fst (run_op disk c op n) =
           Some (if status_code r \<in> set (accepted op) then returned op r else Inl (http_error r))"
  using assms
  by (cases op)
     (simp_all add: test_def create_group_def create_project_def list_projects_in_group_def
        list_repository_tree_def get_file_raw_def upload_file_def commit_files_def
        send_expect_replied Let_def)

lemma run_single_sent:
  assumes "op \<noteq> ListGroups"
  shows "\<exists>res n'. run_op disk c op n = Some (res, n') \<and> replies n' = replies n \<and>
           length (sent n') = length (sent n) + (if file_opens disk op then 1 else 0)"
proof -
  have *: "\<exists>res n'. send_expect rq ok body n = (res, n') \<and> replies n' = replies n \<and>
           length (sent n') = Suc (length (sent n))" for rq ok body
    using send_expect_sent [of rq ok body n] send_expect_replies [of rq ok body n]
    by (cases "send_expect rq ok body n") simp
  show ?thesis
    using assms
    by (cases op)
       (simp_all add: test_def create_group_def create_project_def list_projects_in_group_def
          list_repository_tree_def get_file_raw_def upload_file_def commit_files_def * Let_def
          split: path_state.splits)
qed

lemma list_groups_rejected:
  assumes "\<forall>j<k. continues (replies n (length (sent n) + j))"
    and "replies n (length (sent n) + k) = Replied r" and "status_code r \<noteq> 200"
  shows "list_groups c n =
         Some (Inl (http_error r),
               n\<lparr>sent := sent n @ map (\<lambda>j. page_request c ''/groups'' [] (1 + j)) [0..<Suc k]\<rparr>)"
proof -
  let ?n = "n\<lparr>sent := sent n @ map (\<lambda>j. page_request c ''/groups'' [] (1 + j)) [0..<k]\<rparr>"
  have r: "replies ?n (length (sent ?n)) = Replied r" using assms(2) by simp
  have "list_groups c n = paged_loop c ''/groups'' [] (1 + k)
           ([] @ concat (map (\<lambda>j. entries (replies n (length (sent n) + j))) [0..<k])) ?n"
    unfolding list_groups_def paged_get_def by (rule paged_loop_steps [OF assms(1)])
  also have "\<dots> = Some (Inl (http_error r),
               ?n\<lparr>sent := sent ?n @ [page_request c ''/groups'' [] (1 + k)]\<rparr>)"
  proof -
    have nc: "\<not> continues (replies ?n (length (sent ?n)))"
      by (simp only: r not_continues_rejected [OF assms(3)] not_False_eq_True)
    show ?thesis
      by (simp only: paged_loop_stop [OF nc] r paged_body_rejected [OF assms(3)] sum.case)
  qed
  finally show ?thesis by simp
qed

lemma list_groups_run:
  assumes "\<forall>j<k. continues (replies n (length (sent n) + j))"
    and "\<not> continues (replies n (length (sent n) + k))"
  shows "list_groups c n =
         Some (case paged_body (replies n (length (sent n) + k)) [] of
                 Inl e \<Rightarrow> Inl e
               | Inr (go_on, xs) \<Rightarrow>
                   Inr (concat (map (\<lambda>j. entries (replies n (length (sent n) + j))) [0..<k]) @ xs),
               n\<lparr>sent := sent n @ map (\<lambda>j. page_request c ''/groups'' [] (1 + j)) [0..<Suc k]\<rparr>)"
proof -
  let ?n = "n\<lparr>sent := sent n @ map (\<lambda>j. page_request c ''/groups'' [] (1 + j)) [0..<k]\<rparr>"
  have nc: "\<not> continues (replies ?n (length (sent ?n)))" using assms(2) by simp
  have "list_groups c n = paged_loop c ''/groups'' [] (1 + k)
           (concat (map (\<lambda>j. entries (replies n (length (sent n) + j))) [0..<k])) ?n"
    using paged_loop_steps [OF assms(1), of c "''/groups''" "[]" 1 "[]"]
    by (simp add: list_groups_def paged_get_def)
  also have "\<dots> = Some (case paged_body (replies ?n (length (sent ?n))) [] of
                 Inl e \<Rightarrow> Inl e
               | Inr (go_on, xs) \<Rightarrow>
                   Inr (concat (map (\<lambda>j. entries (replies n (length (sent n) + j))) [0..<k]) @ xs),
               ?n\<lparr>sent := sent ?n @ [page_request c ''/groups'' [] (1 + k)]\<rparr>)"
    by (rule paged_loop_stop [OF nc])
  finally show ?thesis by simp
qed



lemma continues_full: "continues (json_reply 200 t (JArr full_page))"
  by (simp add: continues_def paged_body_def json_reply_def r_json_def full_page_def per_page_def)

lemma not_continues_empty: "\<not> continues (json_reply 200 t (JArr []))"
  by (simp add: continues_def paged_body_def json_reply_def r_json_def)

lemma serves_page_body:
  "serves_page rp xs \<Longrightarrow> paged_body rp [] = Inr (\<not> length xs < per_page, xs)"
  by (cases rp) (auto simp: serves_page_def paged_body_def r_json_def per_page_def)

lemma serves_page_continues:
  "serves_page rp xs \<Longrightarrow> continues rp = (per_page \<le> length xs)"
  by (auto simp: continues_def serves_page_body)

lemma serves_page_entries:
  "serves_page rp xs \<Longrightarrow> entries rp = xs"
  by (simp add: entries_def serves_page_body)

lemma continues_over: "continues (json_reply 200 t (JArr over_page))"
  by (simp add: continues_def paged_body_def json_reply_def r_json_def over_page_def per_page_def)

lemma page_param:
  "map_of (req_params (page_request c path [] p)) ''page'' = Some (str_int (int p))"
  by (simp add: page_request_def)

lemma paged_loop_sent:
  assumes "paged_loop c path params page res n = Some y"
  shows "\<exists>new. sent (snd y) = sent n @ new \<and> (\<forall>rq\<in>set new. req_url rq = base_url c @ path)"
proof (rule paged_loop.raw_induct [where P = "\<lambda>c path params page res n y.
    \<exists>new. sent (snd y) = sent n @ new \<and> (\<forall>rq\<in>set new. req_url rq = base_url c @ path)",
    OF _ assms], goal_cases)
  case (1 f c path params page res n y)
  let ?n = "n\<lparr>sent := sent n @ [page_request c path params page]\<rparr>"
  show ?case
  proof (cases "paged_body (replies n (length (sent n))) res")
    case (Inl e)
    with 1(2) have "y = (Inl e, ?n)" by (simp add: http_def)
    then show ?thesis by (simp add: page_request_def)
  next
    case (Inr p)
    obtain go_on res' where p: "p = (go_on, res')" by (cases p)
    show ?thesis
    proof (cases go_on)
      case True
      with 1(2) Inr p have "f c path params (page + 1) res' ?n = Some y" by (simp add: http_def)
      from 1(1) [OF this] obtain new where "sent (snd y) = sent ?n @ new"
        and "\<forall>rq\<in>set new. req_url rq = base_url c @ path" by blast
      then have "sent (snd y) = sent n @ (page_request c path params page # new) \<and>
          (\<forall>rq\<in>set (page_request c path params page # new). req_url rq = base_url c @ path)"
        by (simp add: page_request_def)
      then show ?thesis by blast
    next
      case False
      with 1(2) Inr p have "y = (Inr res', ?n)" by (simp add: http_def)
      then show ?thesis by (simp add: page_request_def)
    qed
  qed
qed

lemma send_expect_url:
  "\<exists>new. sent (snd (send_expect rq ok body n)) = sent n @ new \<and> (\<forall>q\<in>set new. req_url q = req_url rq)"
  by (simp add: send_expect_sent)

section \<open>The window: what the tree loop changes\<close>

lemma insert_roots_frame:
  "insert_roots th xs g = (e, g') \<Longrightarrow>
     \<exists>t tr. g' = g\<lparr>tree := t, trace := trace g @ tr\<rparr> \<and> (\<forall>x\<in>set tr. fst x = th)"
proof (induction xs arbitrary: g)
  case Nil
  then have "g' = g\<lparr>tree := tree g, trace := trace g @ []\<rparr>" by simp
  then show ?case by (metis empty_iff list.set(1))
next
  case (Cons rg rest)
  show ?case
  proof (cases "py_get rg ''id''")
    case (Inl e1)
    with Cons.prems have "g' = g\<lparr>tree := tree g, trace := trace g @ []\<rparr>" by simp
    then show ?thesis by (metis empty_iff list.set(1))
  next
    case (Inr gid)
    show ?thesis
    proof (cases "py_get rg ''name''")
      case (Inl e2)
      with Cons.prems Inr have "g' = g\<lparr>tree := tree g, trace := trace g @ []\<rparr>" by simp
      then show ?thesis by (metis empty_iff list.set(1))
    next
      case name: (Inr name)
      let ?iid = "''group_'' @ py_str gid"
      let ?g1 = "called th (TreeInsert [] ?iid) g"
      show ?thesis
      proof (cases "tree_insert [] ?iid name (Some (''group'', gid)) (tree ?g1)")
        case (Inl e3)
        with Cons.prems Inr name have "g' = g\<lparr>tree := tree g, trace := trace g @ [(th, TreeInsert [] ?iid)]\<rparr>"
          by (simp add: Let_def called_def)
        then show ?thesis by (metis fst_conv set_ConsD empty_iff list.set(1))
      next
        case t1: (Inr t1)
        let ?g2 = "called th (TreeInsert ?iid (?iid @ ''_dummy'')) (?g1\<lparr>tree := t1\<rparr>)"
        show ?thesis
        proof (cases "tree_insert ?iid (?iid @ ''_dummy'') (JStr dummy_text) None (tree ?g2)")
          case (Inl e4)
          with Cons.prems Inr name t1 have "g' = g\<lparr>tree := t1, trace := trace g @
              [(th, TreeInsert [] ?iid), (th, TreeInsert ?iid (?iid @ ''_dummy''))]\<rparr>"
            by (simp add: Let_def called_def)
          moreover have "\<forall>x\<in>set [(th, TreeInsert [] ?iid), (th, TreeInsert ?iid (?iid @ ''_dummy''))]. fst x = th"
            by simp
          ultimately show ?thesis by blast
        next
          case t2: (Inr t2)
          with Cons.prems Inr name t1 have "insert_roots th rest (?g2\<lparr>tree := t2\<rparr>) = (e, g')"
            by (simp add: Let_def)
          from Cons.IH [OF this] obtain t tr where
            g': "g' = (?g2\<lparr>tree := t2\<rparr>)\<lparr>tree := t, trace := trace (?g2\<lparr>tree := t2\<rparr>) @ tr\<rparr>"
            and tr: "\<forall>x\<in>set tr. fst x = th" by blast
          from g' have "g' = g\<lparr>tree := t, trace := trace g @
              ([(th, TreeInsert [] ?iid), (th, TreeInsert ?iid (?iid @ ''_dummy''))] @ tr)\<rparr>"
            by (simp add: called_def)
          moreover have "\<forall>x\<in>set ([(th, TreeInsert [] ?iid), (th, TreeInsert ?iid (?iid @ ''_dummy''))] @ tr). fst x = th"
            using tr by simp
          ultimately show ?thesis by blast
        qed
      qed
    qed
  qed
qed

lemma rebuild_tree_frame:
  assumes "rebuild_tree th groups g = (e, g')"
  shows "\<exists>t tr. g' = g\<lparr>tree := t, trace := trace g @ (th, TreeGetChildren) #
                        (th, TreeDelete (map node_iid (tree g))) # tr\<rparr> \<and>
           (\<forall>x\<in>set tr. fst x = th)"
proof -
  let ?g2 = "g\<lparr>tree := [], trace := trace g @ [(th, TreeGetChildren), (th, TreeDelete (map node_iid (tree g)))]\<rparr>"
  have g2: "(called th (TreeDelete (map node_iid (tree (called th TreeGetChildren g))))
              (called th TreeGetChildren g))\<lparr>tree := []\<rparr> = ?g2"
    by (simp add: called_def)
  have base: "\<exists>t tr. ?g2 = g\<lparr>tree := t, trace := trace g @ (th, TreeGetChildren) #
                        (th, TreeDelete (map node_iid (tree g))) # tr\<rparr> \<and>
           (\<forall>x\<in>set tr. fst x = th)"
  proof -
    have "?g2 = g\<lparr>tree := [], trace := trace g @ (th, TreeGetChildren) #
                        (th, TreeDelete (map node_iid (tree g))) # []\<rparr>"
      by simp
    moreover have "\<forall>x\<in>set []. fst x = th" by simp
    ultimately show ?thesis by blast
  qed
  show ?thesis
  proof (cases "\<exists>gs roots srt. py_iter groups = Inr gs \<and> root_groups gs = Inr roots \<and> sorted_by_name roots = Inr srt")
    case False
    with assms have "g' = ?g2"
      by (auto simp: rebuild_tree_def Let_def g2 split: sum.splits)
    with base show ?thesis by simp
  next
    case True
    then obtain gs roots srt where "py_iter groups = Inr gs" "root_groups gs = Inr roots"
      "sorted_by_name roots = Inr srt" by blast
    with assms have "insert_roots th srt ?g2 = (e, g')"
      by (simp add: rebuild_tree_def Let_def g2)
    from insert_roots_frame [OF this] obtain t tr where
      g': "g' = ?g2\<lparr>tree := t, trace := trace ?g2 @ tr\<rparr>" and tr: "\<forall>x\<in>set tr. fst x = th" by blast
    from g' have "g' = g\<lparr>tree := t, trace := trace g @ (th, TreeGetChildren) #
         (th, TreeDelete (map node_iid (tree g))) # tr\<rparr>" by simp
    with tr show ?thesis by blast
  qed
qed

lemma rebuild_tree_fields:
  assumes "rebuild_tree th groups g = (e, g')"
  shows "all_groups g' = all_groups g \<and> last_parent_name g' = last_parent_name g \<and>
         last_subgroup_name g' = last_subgroup_name g"
  using rebuild_tree_frame [OF assms] by auto

lemma test_raises:
  assumes "validation_raises (replies n (length (sent n)))"
  shows "\<exists>e n'. test c n = (Inl e, n')"
  using assms
  by (cases "replies n (length (sent n))")
     (auto simp: test_def send_expect_def http_def parsed_def r_json_def)

lemma populate_groups_network:
  assumes "client g = Some c" and "list_groups c (network g) = Some (res, n')"
  shows "\<exists>g'. populate_groups th g = Some g' \<and> network g' = n'"
proof (cases res)
  case (Inl e)
  with assms show ?thesis
    by (simp add: populate_groups_def populate_task_def populate_failed_def called_def log_def Let_def)
next
  case (Inr groups)
  let ?g2 = "log TaskThread (GroupsLoaded (length groups))
               ((called TaskThread (SetStatus LoadingGroups) g)\<lparr>network := n', all_groups := JArr groups\<rparr>)"
  obtain e g3 where rb: "rebuild_tree TaskThread (JArr groups) ?g2 = (e, g3)"
    by (cases "rebuild_tree TaskThread (JArr groups) ?g2")
  from rebuild_tree_frame [OF rb] have n3: "network g3 = n'"
    by (auto simp: log_def called_def)
  show ?thesis
    using assms Inr rb n3
    by (cases e)
       (simp_all add: populate_groups_def populate_task_def populate_failed_def called_def log_def Let_def)
qed

lemma on_login_nothing:
  assumes "strip (token_var g) = [] \<or> \<not> REQUESTS_AVAILABLE g"
  shows "\<exists>g'. on_login g = Some g' \<and> network g' = network g"
  using assms by (auto simp: on_login_def called_def Let_def)

lemma on_login_rejected:
  assumes "strip (token_var g) \<noteq> []" and "REQUESTS_AVAILABLE g"
    and "validation_raises (replies (network g) (length (sent (network g))))"
  shows "\<exists>g'. on_login g = Some g' \<and>
           length (sent (network g')) = length (sent (network g)) + 1"
proof -
  let ?c = "GitLabClient (Some (strip (token_var g))) (BASE_URL g)"
  from test_raises [OF assms(3), of ?c] obtain e n' where t: "test ?c (network g) = (Inl e, n')"
    by blast
  have "sent (snd (test ?c (network g))) = sent (network g) @
      [\<lparr>req_verb = GET, req_url = base_url ?c @ ''/user'', req_headers = headers ?c,
        req_params = [], req_json = None, req_file = None, req_timeout = 10\<rparr>]"
    unfolding test_def by (rule send_expect_sent)
  with t have "length (sent n') = length (sent (network g)) + 1" by simp
  then show ?thesis
    using assms(1,2) t
    by (simp add: on_login_def login_task_def login_failed_def called_def log_def Let_def)
qed

lemma on_login_accepted:
  assumes "strip (token_var g) \<noteq> []" and "REQUESTS_AVAILABLE g"
    and "replies (network g) (length (sent (network g))) = Replied r"
    and "status_code r = 200" and "resp_json r = Some (JObj kvs)"
    and "\<forall>j<m. continues (replies (network g) (length (sent (network g)) + 1 + j))"
    and "\<not> continues (replies (network g) (length (sent (network g)) + 1 + m))"
  shows "\<exists>g'. on_login g = Some g' \<and>
           length (sent (network g')) = length (sent (network g)) + 1 + (m + 1)"
proof -
  let ?c = "GitLabClient (Some (strip (token_var g))) (BASE_URL g)"
  let ?rq = "\<lparr>req_verb = GET, req_url = base_url ?c @ ''/user'', req_headers = headers ?c,
        req_params = [], req_json = None, req_file = None, req_timeout = 10\<rparr>"
  let ?n1 = "(network g)\<lparr>sent := sent (network g) @ [?rq]\<rparr>"
  have t: "test ?c (network g) = (Inr (Parsed (JObj kvs)), ?n1)"
    using assms(3,4,5) by (simp add: test_def send_expect_replied parsed_def r_json_def)
  have "\<exists>G. on_login g = populate_groups TaskThread G \<and> client G = Some ?c \<and> network G = ?n1"
    using assms(1,2)
    apply (simp add: on_login_def login_task_def called_def log_def t py_get_def Let_def)
    apply (intro conjI impI)
      apply (rule exI, rule conjI, rule refl, simp)+
    done
  then obtain G where G: "on_login g = populate_groups TaskThread G" "client G = Some ?c"
    "network G = ?n1" by blast
  have c1: "\<forall>j<m. continues (replies ?n1 (length (sent ?n1) + j))"
    using assms(6) by (simp add: add.assoc)
  have c2: "\<not> continues (replies ?n1 (length (sent ?n1) + m))"
    using assms(7) by (simp add: add.assoc)
  from list_groups_run [OF c1 c2, of ?c] obtain res n2 where
    lg: "list_groups ?c ?n1 = Some (res, n2)"
    and len: "length (sent n2) = length (sent ?n1) + m + 1"
    by simp
  from populate_groups_network [of G ?c res n2 TaskThread] G lg
  obtain g' where "populate_groups TaskThread G = Some g'" "network g' = n2" by auto
  with G(1) len show ?thesis by simp
qed

section \<open>The roots of the tree\<close>

lemma py_get_object: "is_object x \<Longrightarrow> py_get x k = Inr (field x k)"
  by (cases x) (simp_all add: py_get_def field_def)

lemma root_groups_filter:
  "\<forall>x\<in>set gs. is_object x \<Longrightarrow> root_groups gs = Inr (filter is_root gs)"
  by (induction gs) (simp_all add: py_get_object is_root_def)

lemma name_key_has_name: "has_name x \<Longrightarrow> name_key x = Inr (lower_name x)"
  by (cases x) (auto simp: name_key_def lower_name_def split: option.splits json.splits)

lemma name_keys_map:
  "\<forall>x\<in>set xs. has_name x \<Longrightarrow> name_keys xs = Inr (map lower_name xs)"
  by (induction xs) (simp_all add: name_key_has_name)

lemma insort_key_decorated:
  "insort_key fst (f x, x) (map (\<lambda>y. (f y, y)) ys) = map (\<lambda>y. (f y, y)) (insort_key f x ys)"
  by (induction ys) simp_all

lemma sort_key_decorated:
  "sort_key fst (map (\<lambda>y. (f y, y)) xs) = map (\<lambda>y. (f y, y)) (sort_key f xs)"
  by (induction xs) (simp_all add: insort_key_decorated)

lemma zip_decorated: "zip (map f xs) xs = map (\<lambda>y. (f y, y)) xs"
  by (induction xs) simp_all

lemma sorted_by_name_sort:
  assumes "\<forall>x\<in>set xs. has_name x"
  shows "sorted_by_name xs = Inr (sort_key lower_name xs)"
  by (simp add: sorted_by_name_def name_keys_map [OF assms] zip_decorated sort_key_decorated comp_def)

lemma insert_under_absent: "p \<notin> set (iids n) \<Longrightarrow> insert_under p new n = n"
proof (induction n)
  case (Node i t v cs)
  then have "map (insert_under p new) cs = cs"
    by (intro map_idI) auto
  with Node.prems show ?case by auto
qed

lemma tree_insert_root:
  "t \<noteq> JNull \<Longrightarrow> i \<notin> set (concat (map iids T)) \<Longrightarrow>
     tree_insert [] i t v T = Inr (T @ [Node i t v []])"
  by (simp add: tree_insert_def tree_exists_def)

lemma tree_insert_child_last:
  assumes "p \<noteq> []" and "p \<notin> set (concat (map iids T))" and "d \<notin> set (concat (map iids T))"
    and "d \<noteq> p" and "t \<noteq> JNull"
  shows "tree_insert p d t v (T @ [Node p t0 v0 []]) = Inr (T @ [Node p t0 v0 [Node d t v []]])"
proof -
  have "map (insert_under p (Node d t v [])) T = T"
    using assms(2) by (intro map_idI insert_under_absent) auto
  then show ?thesis using assms by (auto simp: tree_insert_def tree_exists_def)
qed

lemma root_iids_Cons: "root_iids (x # xs) = root_iid x # (root_iid x @ ''_dummy'') # root_iids xs"
  by (simp add: root_iids_def)

lemma set_root_iids:
  "set (root_iids xs) = root_iid ` set xs \<union> (\<lambda>x. root_iid x @ ''_dummy'') ` set xs"
  by (induction xs) (auto simp: root_iids_Cons root_iids_def)

lemma distinct_root_iids_iff:
  "distinct (root_iids xs) \<longleftrightarrow>
     distinct (map root_iid xs) \<and> (\<forall>x\<in>set xs. \<forall>y\<in>set xs. root_iid x \<noteq> root_iid y @ ''_dummy'')"
proof (induction xs)
  case Nil
  then show ?case by (simp add: root_iids_def)
next
  case (Cons x xs)
  have self: "root_iid x \<noteq> root_iid x @ ''_dummy''" by simp
  show ?case
    unfolding root_iids_Cons using Cons.IH self
    by (simp add: set_root_iids image_iff) (safe, (simp_all | metis)+)
qed

lemma distinct_root_iids_sort:
  "distinct (root_iids xs) \<Longrightarrow> distinct (root_iids (sort_key f xs))"
  by (simp add: distinct_root_iids_iff distinct_map)

lemma has_name_field: "has_name x \<Longrightarrow> field x ''name'' \<noteq> JNull"
  by (cases x) (auto simp: field_def py_get_def split: option.splits json.splits)

lemma insert_roots_ok:
  assumes "\<forall>x\<in>set xs. is_object x" and "distinct (root_iids xs)"
    and "set (root_iids xs) \<inter> set (concat (map iids (tree g))) = {}"
    and "\<forall>x\<in>set xs. has_name x"
  shows "\<exists>g'. insert_roots th xs g = (None, g') \<and> tree g' = tree g @ map root_node xs \<and>
           trace g' = trace g @ insert_calls th xs"
  using assms
proof (induction xs arbitrary: g)
  case Nil
  then show ?case by (simp add: insert_calls_def)
next
  case (Cons x xs)
  let ?i = "root_iid x"
  let ?d = "root_iid x @ ''_dummy''"
  let ?T = "tree g"
  have obj: "is_object x" using Cons.prems(1) by simp
  have i: "?i \<notin> set (concat (map iids ?T))" and d: "?d \<notin> set (concat (map iids ?T))"
    using Cons.prems(3) by (auto simp: root_iids_Cons)
  have ne: "?i \<noteq> []" by (simp add: root_iid_def)
  have nm: "field x ''name'' \<noteq> JNull" using Cons.prems(4) by (simp add: has_name_field)
  have dm: "JStr dummy_text \<noteq> JNull" by simp
  let ?g1 = "called th (TreeInsert [] ?i) g"
  have t1: "tree_insert [] ?i (field x ''name'') (Some (''group'', field x ''id'')) (tree ?g1)
            = Inr (?T @ [Node ?i (field x ''name'') (Some (''group'', field x ''id'')) []])"
    using i nm by (simp add: tree_insert_root called_def)
  let ?g2 = "called th (TreeInsert ?i ?d)
               (?g1\<lparr>tree := ?T @ [Node ?i (field x ''name'') (Some (''group'', field x ''id'')) []]\<rparr>)"
  have t2: "tree_insert ?i ?d (JStr dummy_text) None (tree ?g2) = Inr (?T @ [root_node x])"
    using tree_insert_child_last [OF ne i d _ dm, of None "field x ''name''"
        "Some (''group'', field x ''id'')"]
    by (simp add: called_def root_node_def)
  let ?g3 = "?g2\<lparr>tree := ?T @ [root_node x]\<rparr>"
  have step: "insert_roots th (x # xs) g = insert_roots th xs ?g3"
    using t1 t2 by (simp add: py_get_object [OF obj] Let_def root_iid_def)
  have p1: "\<forall>y\<in>set xs. is_object y" using Cons.prems(1) by simp
  have p2: "distinct (root_iids xs)" using Cons.prems(2) by (simp add: root_iids_Cons)
  have "set (iids (root_node x)) = {?i, ?d}" by (auto simp: root_node_def)
  then have p3: "set (root_iids xs) \<inter> set (concat (map iids (tree ?g3))) = {}"
    using Cons.prems(2,3) by (auto simp: root_iids_Cons)
  have p4: "\<forall>y\<in>set xs. has_name y" using Cons.prems(4) by simp
  from Cons.IH [OF p1 p2 p3 p4] obtain g' where
    "insert_roots th xs ?g3 = (None, g')" "tree g' = tree ?g3 @ map root_node xs"
    "trace g' = trace ?g3 @ insert_calls th xs" by blast
  with step show ?case by (simp add: called_def insert_calls_def)
qed

lemma rebuild_tree_ok:
  assumes "\<forall>x\<in>set groups. is_object x" and "\<forall>x\<in>set (filter is_root groups). has_name x"
    and "distinct (root_iids (filter is_root groups))"
  shows "\<exists>g'. rebuild_tree th (JArr groups) g = (None, g') \<and>
           tree g' = map root_node (sort_key lower_name (filter is_root groups)) \<and>
           trace g' = trace g @ [(th, TreeGetChildren), (th, TreeDelete (map node_iid (tree g)))]
                        @ insert_calls th (sort_key lower_name (filter is_root groups))"
proof -
  let ?srt = "sort_key lower_name (filter is_root groups)"
  let ?g2 = "(called th (TreeDelete (map node_iid (tree (called th TreeGetChildren g))))
              (called th TreeGetChildren g))\<lparr>tree := []\<rparr>"
  have a: "\<forall>x\<in>set ?srt. is_object x" using assms(1) by simp
  have b: "distinct (root_iids ?srt)" using assms(3) by (rule distinct_root_iids_sort)
  have c: "set (root_iids ?srt) \<inter> set (concat (map iids (tree ?g2))) = {}" by simp
  have d: "\<forall>x\<in>set ?srt. has_name x" using assms(2) by simp
  from insert_roots_ok [OF a b c d, of th] obtain g' where
    "insert_roots th ?srt ?g2 = (None, g')" "tree g' = tree ?g2 @ map root_node ?srt"
    "trace g' = trace ?g2 @ insert_calls th ?srt" by blast
  then show ?thesis
    by (simp add: rebuild_tree_def Let_def root_groups_filter [OF assms(1)]
          sorted_by_name_sort [OF assms(2)] called_def)
qed

lemma list_groups_one_page:
  assumes "serves_page (replies n (length (sent n))) xs" and "length xs < 100"
  shows "list_groups c n = Some (Inr xs, n\<lparr>sent := sent n @ [page_request c ''/groups'' [] 1]\<rparr>)"
proof -
  have nc: "\<not> continues (replies n (length (sent n)))"
    using assms(2) by (simp add: serves_page_continues [OF assms(1)] per_page_def)
  show ?thesis
    unfolding list_groups_def paged_get_def
    by (simp only: paged_loop_stop [OF nc] serves_page_body [OF assms(1)] sum.case prod.case append_Nil)
qed

section \<open>UTF-8 and base64 round trips\<close>


































section \<open>Claims\<close>





text \<open>
  C2, as amended. A method of the client other than \<^verbatim>\<open>list_groups\<close> always returns
  and sends exactly one request (\<^verbatim>\<open>upload_file\<close>: none when the file does not open).
  \<^verbatim>\<open>list_groups\<close> sends one request per page: when the first \<open>k\<close> replies make the
  loop go on and the next one does not, it returns after \<open>k + 1\<close> requests. Login
  sends no request when the token field is blank or the library is missing; one request
  when the validation raises; and, when the validation is answered by 200 and a JSON
  object, one request and then those of \<^verbatim>\<open>list_groups\<close>: \<open>1 + (m + 1)\<close> when the
  groups take \<open>m + 1\<close> pages.
\<close>

theorem requests_per_operation:
  "(op \<noteq> ListGroups \<longrightarrow>
      (\<exists>res n'. run_op disk c op n = Some (res, n') \<and>
         length (sent n') = length (sent n) + (if file_opens disk op then 1 else 0))) \<and>
   ((\<forall>j<k. continues (replies n (length (sent n) + j))) \<and>
    \<not> continues (replies n (length (sent n) + k)) \<longrightarrow>
      (\<exists>res n'. run_op disk c ListGroups n = Some (res, n') \<and>
         length (sent n') = length (sent n) + k + 1)) \<and>
   (strip (token_var g) = [] \<or> \<not> REQUESTS_AVAILABLE g \<longrightarrow>
      (\<exists>g'. on_login g = Some g' \<and> network g' = network g)) \<and>
   (strip (token_var g) \<noteq> [] \<and> REQUESTS_AVAILABLE g \<and>
    validation_raises (replies (network g) (length (sent (network g)))) \<longrightarrow>
      (\<exists>g'. on_login g = Some g' \<and>
         length (sent (network g')) = length (sent (network g)) + 1)) \<and>
   (strip (token_var g) \<noteq> [] \<and> REQUESTS_AVAILABLE g \<and>
    replies (network g) (length (sent (network g))) = Replied r \<and> status_code r = 200 \<and>
    resp_json r = Some (JObj kvs) \<and>
    (\<forall>j<m. continues (replies (network g) (length (sent (network g)) + 1 + j))) \<and>
    \<not> continues (replies (network g) (length (sent (network g)) + 1 + m)) \<longrightarrow>
      (\<exists>g'. on_login g = Some g' \<and>
         length (sent (network g')) = length (sent (network g)) + 1 + (m + 1)))"
proof (intro conjI impI)
  assume "op \<noteq> ListGroups"
  from run_single_sent [OF this, of disk c n]
  show "\<exists>res n'. run_op disk c op n = Some (res, n') \<and>
         length (sent n') = length (sent n) + (if file_opens disk op then 1 else 0)"
    by blast
next
  assume a: "(\<forall>j<k. continues (replies n (length (sent n) + j))) \<and>
    \<not> continues (replies n (length (sent n) + k))"
  then have "\<exists>res n'. list_groups c n = Some (res, n') \<and> length (sent n') = length (sent n) + k + 1"
    using list_groups_run [of k n c] by simp
  then show "\<exists>res n'. run_op disk c ListGroups n = Some (res, n') \<and>
         length (sent n') = length (sent n) + k + 1"
    by auto
next
  assume "strip (token_var g) = [] \<or> \<not> REQUESTS_AVAILABLE g"
  then show "\<exists>g'. on_login g = Some g' \<and> network g' = network g" by (rule on_login_nothing)
next
  assume "strip (token_var g) \<noteq> [] \<and> REQUESTS_AVAILABLE g \<and>
    validation_raises (replies (network g) (length (sent (network g))))"
  then show "\<exists>g'. on_login g = Some g' \<and>
         length (sent (network g')) = length (sent (network g)) + 1"
    using on_login_rejected [of g] by blast
next
  assume "strip (token_var g) \<noteq> [] \<and> REQUESTS_AVAILABLE g \<and>
    replies (network g) (length (sent (network g))) = Replied r \<and> status_code r = 200 \<and>
    resp_json r = Some (JObj kvs) \<and>
    (\<forall>j<m. continues (replies (network g) (length (sent (network g)) + 1 + j))) \<and>
    \<not> continues (replies (network g) (length (sent (network g)) + 1 + m))"
  then show "\<exists>g'. on_login g = Some g' \<and>
         length (sent (network g')) = length (sent (network g)) + 1 + (m + 1)"
    using on_login_accepted [of g r kvs m] by blast
qed

theorem requests_per_operation_witness:
  "(\<exists>res n'. run_op (\<lambda>p. Missing) demo_client (UploadFile 7 ''x.bin'') two_pages = Some (res, n') \<and>
       length (sent n') = 0) \<and>
   (\<exists>res n'. run_op (\<lambda>p. Unreadable) demo_client (UploadFile 7 ''x.bin'') two_pages = Some (res, n') \<and>
       length (sent n') = 0) \<and>
   (\<exists>res n'. run_op (\<lambda>p. Readable) demo_client (UploadFile 7 ''x.bin'') two_pages = Some (res, n') \<and>
       length (sent n') = 1) \<and>
   (\<exists>res n'. run_op (\<lambda>p. Readable) demo_client Test two_pages = Some (res, n') \<and>
       length (sent n') = 1) \<and>
   (\<exists>res n'. run_op (\<lambda>p. Readable) demo_client ListGroups two_pages = Some (res, n') \<and>
       length (sent n') = 2) \<and>
   (\<exists>g'. on_login (fresh_app\<lparr>token_var := ''  ''\<rparr>) = Some g' \<and> network g' = reject_net) \<and>
   (\<exists>g'. on_login fresh_app = Some g' \<and> length (sent (network g')) = 1) \<and>
   (\<exists>g'. on_login login_app = Some g' \<and> length (sent (network g')) = 2)"
proof -
  let ?user = "\<lparr>status_code = 200, resp_text = ''user'', resp_content = ''user'',
                 resp_json = Some (JObj [(''name'', JStr ''u'')])\<rparr>"
  have s: "sent two_pages = []" by (simp add: two_pages_def)
  have a: "(\<forall>j<1. continues (replies two_pages (length (sent two_pages) + j))) \<and>
           \<not> continues (replies two_pages (length (sent two_pages) + 1))"
    by (simp add: two_pages_def continues_full not_continues_empty)
  have t0: "strip ''  '' = []" by code_simp
  have t1: "strip '' glpat-x '' \<noteq> []" by code_simp
  have sp: "serves_page (json_reply 200 ''groups'' (JArr demo_groups)) demo_groups"
    by (simp add: serves_page_def json_reply_def)
  have len: "length demo_groups < 100" by (simp add: demo_groups_def)
  have nc: "\<not> continues (json_reply 200 ''groups'' (JArr demo_groups))"
    using len by (simp only: serves_page_continues [OF sp] per_page_def not_le)
  have w1: "\<exists>res n'. run_op (\<lambda>p. Missing) demo_client (UploadFile 7 ''x.bin'') two_pages = Some (res, n') \<and>
       length (sent n') = 0"
    using requests_per_operation [where op = "UploadFile 7 ''x.bin''" and disk = "\<lambda>p. Missing"
        and c = demo_client and n = two_pages]
    by (simp add: s)
  have w2: "\<exists>res n'. run_op (\<lambda>p. Unreadable) demo_client (UploadFile 7 ''x.bin'') two_pages = Some (res, n') \<and>
       length (sent n') = 0"
    using requests_per_operation [where op = "UploadFile 7 ''x.bin''" and disk = "\<lambda>p. Unreadable"
        and c = demo_client and n = two_pages]
    by (simp add: s)
  have w3: "\<exists>res n'. run_op (\<lambda>p. Readable) demo_client (UploadFile 7 ''x.bin'') two_pages = Some (res, n') \<and>
       length (sent n') = 1"
    using requests_per_operation [where op = "UploadFile 7 ''x.bin''" and disk = "\<lambda>p. Readable"
        and c = demo_client and n = two_pages]
    by (simp add: s)
  have w4: "\<exists>res n'. run_op (\<lambda>p. Readable) demo_client Test two_pages = Some (res, n') \<and>
       length (sent n') = 1"
    using requests_per_operation [where op = Test and disk = "\<lambda>p. Readable"
        and c = demo_client and n = two_pages]
    by (simp add: s)
  have w5: "\<exists>res n'. run_op (\<lambda>p. Readable) demo_client ListGroups two_pages = Some (res, n') \<and>
       length (sent n') = 2"
    using requests_per_operation [where k = 1 and disk = "\<lambda>p. Readable"
        and c = demo_client and n = two_pages] a
    by (simp add: s numeral_2_eq_2)
  have w6: "\<exists>g'. on_login (fresh_app\<lparr>token_var := ''  ''\<rparr>) = Some g' \<and> network g' = reject_net"
    using requests_per_operation [where g = "fresh_app\<lparr>token_var := ''  ''\<rparr>"] t0
    by (simp add: fresh_app_def)
  have w7: "\<exists>g'. on_login fresh_app = Some g' \<and> length (sent (network g')) = 1"
    using requests_per_operation [where g = fresh_app] t1
    by (simp add: fresh_app_def demo_app_def reject_net_def json_reply_def)
  have w8: "\<exists>g'. on_login login_app = Some g' \<and> length (sent (network g')) = 2"
    using requests_per_operation [where g = login_app and r = ?user and m = 0
        and kvs = "[(''name'', JStr ''u'')]"] t1 nc
    by (simp add: login_app_def fresh_app_def demo_app_def json_reply_def [of 200 "''user''"] numeral_2_eq_2)
  from w1 w2 w3 w4 w5 w6 w7 w8 show ?thesis by blast
qed

text \<open>
  C2 as stated fails: on a first page of 100 groups \<^verbatim>\<open>list_groups\<close> sends two requests.
\<close>

theorem list_groups_two_requests_counterexample:
  "map_option (\<lambda>x. length (sent (snd x))) (run_op (\<lambda>p. Readable) demo_client ListGroups two_pages) = Some 2"
proof -
  have "list_groups demo_client two_pages =
        paged_loop demo_client ''/groups'' [] (1 + 1) ([] @ entries (replies two_pages (length (sent two_pages))))
          (two_pages\<lparr>sent := sent two_pages @ [page_request demo_client ''/groups'' [] 1]\<rparr>)"
    unfolding list_groups_def paged_get_def
    by (rule paged_loop_step) (simp add: two_pages_def continues_full)
  also have "\<dots> = Some (Inr full_page, two_pages\<lparr>sent := [page_request demo_client ''/groups'' [] 1,
                 page_request demo_client ''/groups'' [] (1 + 1)]\<rparr>)"
  proof (subst paged_loop_stop)
    show "\<not> continues (replies (two_pages\<lparr>sent := sent two_pages @ [page_request demo_client ''/groups'' [] 1]\<rparr>)
       (length (sent (two_pages\<lparr>sent := sent two_pages @ [page_request demo_client ''/groups'' [] 1]\<rparr>))))"
      by (simp add: two_pages_def not_continues_empty)
  qed (simp add: two_pages_def entries_def paged_body_def json_reply_def r_json_def
          full_page_def per_page_def)
  finally show ?thesis by simp
qed

text \<open>
  C5. Every request of the program goes to the base URL followed by one of the eight
  endpoint paths, the one of the call, with the number rendered in decimal for
  \<^verbatim>\<open>:id\<close> and the URL-quoted file path for \<^verbatim>\<open>:path\<close>.
\<close>

theorem documented_endpoints_only:
  assumes "issue disk c call n = Some y"
  shows "\<exists>new. sent (snd y) = sent n @ new \<and>
           (\<forall>rq\<in>set new. req_url rq = base_url c @ path_of (endpoint_of call))"
proof (cases call)
  case (Method op)
  show ?thesis
  proof (cases "op = ListGroups")
    case True
    with assms Method obtain z where z: "paged_loop c ''/groups'' [] 1 [] n = Some z"
      and "snd y = snd z"
      by (auto simp: list_groups_def paged_get_def)
    with paged_loop_sent [OF z] True Method show ?thesis by simp
  next
    case False
    with assms Method show ?thesis
      by (cases op)
         (auto simp: test_def create_group_def create_project_def list_projects_in_group_def
            list_repository_tree_def get_file_raw_def upload_file_def commit_files_def
            send_expect_sent Let_def split: path_state.splits)
  qed
next
  case (ActionUpload pid fn timeout)
  with assms show ?thesis
    by (auto simp: action_upload_post_def send_expect_sent split: path_state.splits)
qed

theorem documented_endpoints_only_witness:
  "\<exists>new. sent (snd (get_file_raw demo_client 7 ''a b/c.txt'' ''master'' two_pages)) = sent two_pages @ new \<and>
     (\<forall>rq\<in>set new. req_url rq = ''https://git.example/api/v4/projects/7/repository/files/a+b%2Fc.txt/raw'')"
proof -
  have a: "issue (\<lambda>p. Readable) demo_client (Method (GetFileRaw 7 ''a b/c.txt'' ''master'')) two_pages
        = Some (get_file_raw demo_client 7 ''a b/c.txt'' ''master'' two_pages)" by simp
  have b: "base_url demo_client = ''https://git.example/api/v4''"
    by (simp add: demo_client_def GitLabClient_def set_token_def rstrip_chars_def)
  have c: "str_int 7 = ''7''" by code_simp
  have d: "quote_plus ''a b/c.txt'' = ''a+b%2Fc.txt''" by code_simp
  from documented_endpoints_only [OF a] show ?thesis by (simp add: b c d)
qed

text \<open>
  C6. No method retries. If a method gets as far as its request number \<open>k\<close> (only the
  paged loop gets beyond the first; \<^verbatim>\<open>upload_file\<close> sends its request only when the
  file opens) and the reply to it has a status that is not 2xx, the method raises the
  \<open>HTTPError\<close> of that reply, and it has sent \<open>k + 1\<close> requests in all: none after the
  failed one.
\<close>

theorem no_retry:
  assumes "\<forall>j<k. continues (replies n (length (sent n) + j))"
    and "replies n (length (sent n) + k) = Replied r" and "\<not> is_success (status_code r)"
    and "file_opens disk op" and "op \<noteq> ListGroups \<longrightarrow> k = 0"
  shows "\<exists>n'. run_op disk c op n = Some (Inl (http_error r), n') \<and>
           length (sent n') = length (sent n) + k + 1"
proof (cases "op = ListGroups")
  case True
  have "status_code r \<noteq> 200" using assms(3) by (auto simp: is_success_def)
  from list_groups_rejected [OF assms(1,2) this, of c] True show ?thesis by simp
next
  case False
  then have k: "k = 0" using assms(5) by simp
  have r: "replies n (length (sent n)) = Replied r" using assms(2) k by simp
  have rej: "status_code r \<notin> set (accepted op)"
    using assms(3) by (rule not_success_not_accepted)
  from run_single_sent [OF False, of disk c n] obtain res n'
    where run: "run_op disk c op n = Some (res, n')"
      and len: "length (sent n') = length (sent n) + (if file_opens disk op then 1 else 0)"
    by blast
  from run_single_fst [OF r assms(4) False, of c] run rej have "res = Inl (http_error r)" by simp
  with run len assms(4) k show ?thesis by simp
qed

theorem no_retry_witness:
  "(\<exists>n'. run_op (\<lambda>p. Readable) demo_client ListGroups
      \<lparr>replies = (\<lambda>i. if i = 0 then json_reply 200 ''p1'' (JArr full_page)
                      else json_reply 500 ''boom'' JNull), sent = []\<rparr>
     = Some (Inl (HTTPError ''500: boom''), n') \<and> length (sent n') = 2) \<and>
   (\<exists>n'. run_op (\<lambda>p. Readable) demo_client (UploadFile 7 ''x.bin'')
      \<lparr>replies = (\<lambda>i. json_reply 500 ''boom'' JNull), sent = []\<rparr>
     = Some (Inl (HTTPError ''500: boom''), n') \<and> length (sent n') = 1)"
proof -
  let ?n = "\<lparr>replies = (\<lambda>i. if i = 0 then json_reply 200 ''p1'' (JArr full_page)
                      else json_reply 500 ''boom'' JNull), sent = []\<rparr>"
  let ?m = "\<lparr>replies = (\<lambda>i. json_reply 500 ''boom'' JNull), sent = []\<rparr>"
  let ?r = "\<lparr>status_code = 500, resp_text = ''boom'', resp_content = ''boom'', resp_json = Some JNull\<rparr>"
  have a: "\<forall>j<1. continues (replies ?n (length (sent ?n) + j))" by (simp add: continues_full)
  have b: "replies ?n (length (sent ?n) + 1) = Replied ?r" by (simp add: json_reply_def)
  have c: "\<not> is_success (status_code ?r)" by (simp add: is_success_def)
  have d: "file_opens (\<lambda>p. Readable) ListGroups" by simp
  have e: "ListGroups \<noteq> ListGroups \<longrightarrow> (1::nat) = 0" by simp
  have a': "\<forall>j<0. continues (replies ?m (length (sent ?m) + j))" by simp
  have b': "replies ?m (length (sent ?m) + 0) = Replied ?r" by (simp add: json_reply_def)
  have d': "file_opens (\<lambda>p. Readable) (UploadFile 7 ''x.bin'')" by simp
  have e': "UploadFile 7 ''x.bin'' \<noteq> ListGroups \<longrightarrow> (0::nat) = 0" by simp
  have s: "str_int 500 = ''500''" by code_simp
  have w1: "\<exists>n'. run_op (\<lambda>p. Readable) demo_client ListGroups ?n
     = Some (Inl (HTTPError ''500: boom''), n') \<and> length (sent n') = 2"
    using no_retry [OF a b c d e, of demo_client] by (simp add: http_error_def s numeral_2_eq_2)
  have w2: "\<exists>n'. run_op (\<lambda>p. Readable) demo_client (UploadFile 7 ''x.bin'') ?m
     = Some (Inl (HTTPError ''500: boom''), n') \<and> length (sent n') = 1"
    using no_retry [OF a' b' c d' e', of demo_client] by (simp add: http_error_def s)
  from w1 w2 show ?thesis by blast
qed

text \<open>
  C8, as amended. When every reply serves a page and some page has fewer than 100
  entries, \<^verbatim>\<open>_paged_get\<close> returns: with \<open>k\<close> the first page of fewer than 100
  entries, it requests the pages \<open>1 .. k + 1\<close> in order, each of the pages before
  has at least 100 entries, and the result is the pages joined in order.
\<close>

theorem paged_get_pages:
  assumes "\<forall>j. serves_page (replies n (length (sent n) + j)) (pages j)"
    and "\<exists>m. length (pages m) < 100"
  shows "\<exists>k. length (pages k) < 100 \<and> (\<forall>j<k. 100 \<le> length (pages j)) \<and>
           paged_get c path params n =
             Some (Inr (concat (map pages [0..<Suc k])),
                   n\<lparr>sent := sent n @ map (\<lambda>j. page_request c path params (Suc j)) [0..<Suc k]\<rparr>)"
proof -
  define k where "k = (LEAST m. length (pages m) < 100)"
  have short: "length (pages k) < 100"
    unfolding k_def using assms(2) by (rule LeastI_ex)
  have full: "100 \<le> length (pages j)" if "j < k" for j
    using not_less_Least [of j "\<lambda>m. length (pages m) < 100"] that unfolding k_def by simp
  have cont: "\<forall>j<k. continues (replies n (length (sent n) + j))"
  proof (intro allI impI)
    fix j assume j: "j < k"
    have "serves_page (replies n (length (sent n) + j)) (pages j)" using assms(1) by blast
    from serves_page_continues [OF this] full [OF j] show "continues (replies n (length (sent n) + j))"
      by (simp add: per_page_def)
  qed
  let ?n = "n\<lparr>sent := sent n @ map (\<lambda>j. page_request c path params (1 + j)) [0..<k]\<rparr>"
  have ent: "concat (map (\<lambda>j. entries (replies n (length (sent n) + j))) [0..<k]) = concat (map pages [0..<k])"
  proof -
    have "entries (replies n (length (sent n) + j)) = pages j" for j
      using assms(1) serves_page_entries by blast
    then show ?thesis by simp
  qed
  have sp: "serves_page (replies ?n (length (sent ?n))) (pages k)" using assms(1) by simp
  have nc: "\<not> continues (replies ?n (length (sent ?n)))"
    using short by (simp only: serves_page_continues [OF sp] per_page_def)
  have "paged_get c path params n = paged_loop c path params (1 + k)
           ([] @ concat (map (\<lambda>j. entries (replies n (length (sent n) + j))) [0..<k])) ?n"
    unfolding paged_get_def by (rule paged_loop_steps [OF cont])
  also have "\<dots> = Some (Inr (([] @ concat (map (\<lambda>j. entries (replies n (length (sent n) + j))) [0..<k])) @ pages k),
                        ?n\<lparr>sent := sent ?n @ [page_request c path params (1 + k)]\<rparr>)"
    by (simp only: paged_loop_stop [OF nc] serves_page_body [OF sp] sum.case prod.case)
  finally have "paged_get c path params n =
             Some (Inr (concat (map pages [0..<Suc k])),
                   n\<lparr>sent := sent n @ map (\<lambda>j. page_request c path params (Suc j)) [0..<Suc k]\<rparr>)"
    by (simp add: ent)
  with short full show ?thesis by blast
qed

theorem paged_get_pages_witness:
  "\<exists>k. length ((\<lambda>j. if j = 0 then full_page else []) k) < 100 \<and>
       (\<forall>j<k. 100 \<le> length ((\<lambda>j. if j = 0 then full_page else []) j)) \<and>
       paged_get demo_client ''/groups'' [] two_pages =
         Some (Inr (concat (map (\<lambda>j. if j = 0 then full_page else []) [0..<Suc k])),
               two_pages\<lparr>sent := sent two_pages @
                  map (\<lambda>j. page_request demo_client ''/groups'' [] (Suc j)) [0..<Suc k]\<rparr>)"
proof -
  have a: "\<forall>j. serves_page (replies two_pages (length (sent two_pages) + j))
             ((\<lambda>j. if j = 0 then full_page else []) j)"
    by (simp add: two_pages_def serves_page_def json_reply_def)
  have b: "\<exists>m::nat. length ((\<lambda>j. if j = 0 then full_page else []) m) < 100"
  proof -
    have "length ((\<lambda>j. if j = 0 then full_page else []) (Suc 0)) < 100" by simp
    then show ?thesis by blast
  qed
  show ?thesis by (rule paged_get_pages [OF a b])
qed

text \<open>
  C8 as stated fails: after a page of 101 entries the loop asks for page 2.
\<close>

theorem page_after_101_entries_counterexample:
  "length over_page \<noteq> 100 \<and>
   map_option (\<lambda>x. map (\<lambda>rq. map_of (req_params rq) ''page'') (sent (snd x)))
     (paged_get demo_client ''/groups'' [] over_pages) = Some [Some ''1'', Some ''2'']"
proof -
  let ?n = "over_pages\<lparr>sent := sent over_pages @ [page_request demo_client ''/groups'' [] 1]\<rparr>"
  have nc: "\<not> continues (replies ?n (length (sent ?n)))"
    by (simp add: over_pages_def not_continues_empty)
  have "paged_get demo_client ''/groups'' [] over_pages =
        paged_loop demo_client ''/groups'' [] (1 + 1)
          ([] @ entries (replies over_pages (length (sent over_pages)))) ?n"
    unfolding paged_get_def
    by (rule paged_loop_step) (simp add: over_pages_def continues_over)
  then have "map_option (\<lambda>x. sent (snd x)) (paged_get demo_client ''/groups'' [] over_pages) =
     Some [page_request demo_client ''/groups'' [] 1, page_request demo_client ''/groups'' [] (1 + 1)]"
    by (simp only: paged_loop_stop [OF nc]) (simp add: over_pages_def)
  then have "map_option (\<lambda>x. map (\<lambda>rq. map_of (req_params rq) ''page'') (sent (snd x)))
     (paged_get demo_client ''/groups'' [] over_pages) = Some [Some (str_int 1), Some (str_int 2)]"
    by (cases "paged_get demo_client ''/groups'' [] over_pages") (auto simp: page_param)
  moreover have "str_int 1 = ''1''" "str_int 2 = ''2''" by code_simp+
  ultimately show ?thesis by (simp add: over_page_def)
qed




text \<open>
  C4, as amended. Let \<^verbatim>\<open>list_groups\<close> return a list of objects in which every root has
  a string as name and the item identifiers of the roots and of their placeholders are
  pairwise distinct. Then \<^verbatim>\<open>populate_groups\<close> returns, keeps the list in
  \<^verbatim>\<open>_all_groups\<close>, and leaves as the tree exactly the groups whose \<^verbatim>\<open>parent_id\<close> is
  absent or falsy (null, 0, false, empty), sorted by lower-cased name with ties in the
  order of the list, each as an item carrying the group's id with one placeholder child.
\<close>

theorem populate_groups_roots:
  assumes "client g = Some c" and "list_groups c (network g) = Some (Inr groups, n')"
    and "\<forall>x\<in>set groups. is_object x" and "\<forall>x\<in>set (filter is_root groups). has_name x"
    and "distinct (root_iids (filter is_root groups))"
  shows "\<exists>g'. populate_groups th g = Some g' \<and> all_groups g' = JArr groups \<and>
           tree g' = map root_node (sort_key lower_name (filter is_root groups))"
proof -
  let ?g2 = "log TaskThread (GroupsLoaded (length groups))
               ((called TaskThread (SetStatus LoadingGroups) g)\<lparr>network := n', all_groups := JArr groups\<rparr>)"
  from rebuild_tree_ok [OF assms(3,4,5), of TaskThread ?g2] obtain g3 where
    r: "rebuild_tree TaskThread (JArr groups) ?g2 = (None, g3)"
    and t: "tree g3 = map root_node (sort_key lower_name (filter is_root groups))" by blast
  from rebuild_tree_fields [OF r] have f: "all_groups g3 = JArr groups" by (simp add: log_def called_def)
  have "populate_groups th g = Some (called TaskThread (SetStatus GroupsDone) g3)"
    using assms(1,2) r by (simp add: populate_groups_def populate_task_def called_def Let_def)
  with t f show ?thesis by (simp add: called_def)
qed

theorem populate_groups_roots_witness:
  "\<exists>g'. populate_groups MainThread mixed_app = Some g' \<and> all_groups g' = JArr mixed_groups \<and>
     tree g' =
       [Node ''group_1'' (JStr ''Alpha'') (Some (''group'', JInt 1))
          [Node ''group_1_dummy'' (JStr dummy_text) None []],
        Node ''group_5'' (JStr ''alpha'') (Some (''group'', JInt 5))
          [Node ''group_5_dummy'' (JStr dummy_text) None []],
        Node ''group_2'' (JStr ''beta'') (Some (''group'', JInt 2))
          [Node ''group_2_dummy'' (JStr dummy_text) None []],
        Node ''group_7'' (JStr ''delta'') (Some (''group'', JInt 7))
          [Node ''group_7_dummy'' (JStr dummy_text) None []],
        Node ''group_6'' (JStr ''Gamma'') (Some (''group'', JInt 6))
          [Node ''group_6_dummy'' (JStr dummy_text) None []],
        Node ''group_4'' (JStr ''Zero'') (Some (''group'', JInt 4))
          [Node ''group_4_dummy'' (JStr dummy_text) None []]]"
proof -
  have c: "client mixed_app = Some demo_client" by (simp add: mixed_app_def demo_app_def)
  have sp: "serves_page (replies (network mixed_app) (length (sent (network mixed_app)))) mixed_groups"
    by (simp add: mixed_app_def serves_page_def json_reply_def)
  have len: "length mixed_groups < 100" by (simp add: mixed_groups_def)
  have o: "\<forall>x\<in>set mixed_groups. is_object x" by (simp add: mixed_groups_def)
  have h: "\<forall>x\<in>set (filter is_root mixed_groups). has_name x" by code_simp
  have d: "distinct (root_iids (filter is_root mixed_groups))" by code_simp
  have v: "map root_node (sort_key lower_name (filter is_root mixed_groups)) =
       [Node ''group_1'' (JStr ''Alpha'') (Some (''group'', JInt 1))
          [Node ''group_1_dummy'' (JStr dummy_text) None []],
        Node ''group_5'' (JStr ''alpha'') (Some (''group'', JInt 5))
          [Node ''group_5_dummy'' (JStr dummy_text) None []],
        Node ''group_2'' (JStr ''beta'') (Some (''group'', JInt 2))
          [Node ''group_2_dummy'' (JStr dummy_text) None []],
        Node ''group_7'' (JStr ''delta'') (Some (''group'', JInt 7))
          [Node ''group_7_dummy'' (JStr dummy_text) None []],
        Node ''group_6'' (JStr ''Gamma'') (Some (''group'', JInt 6))
          [Node ''group_6_dummy'' (JStr dummy_text) None []],
        Node ''group_4'' (JStr ''Zero'') (Some (''group'', JInt 4))
          [Node ''group_4_dummy'' (JStr dummy_text) None []]]" by code_simp
  from populate_groups_roots [OF c list_groups_one_page [OF sp len] o h d, of MainThread]
  show ?thesis by (simp only: v)
qed

text \<open>
  C4 as stated fails: a group whose \<^verbatim>\<open>parent_id\<close> is 0 is neither without the field nor
  null, and it is inserted as a root.
\<close>

theorem falsy_parent_is_root_counterexample:
  "JObj [(''id'', JInt 4), (''name'', JStr ''Zero''), (''parent_id'', JInt 0)] \<in> set demo_groups \<and>
   \<not> parent_absent_or_null (JObj [(''id'', JInt 4), (''name'', JStr ''Zero''), (''parent_id'', JInt 0)]) \<and>
   map_option (\<lambda>g. map node_values (tree g)) (populate_groups MainThread demo_app) =
     Some [Some (''group'', JInt 1), Some (''group'', JInt 2), Some (''group'', JInt 4)]"
  by code_simp

text \<open>
  C7, as amended. Once logged in, \<^verbatim>\<open>populate_groups\<close> returns, and everything it does
  to the window it does on the thread of its task. When \<^verbatim>\<open>list_groups\<close> returns a
  list, the task sets the status, queues one log line, reads the children of the tree
  and deletes them, and every call after these is on the task thread too; when the list
  is one of objects whose roots have a string as name and distinct item identifiers,
  those calls are exactly the two inserts for each root, in sorted order, and the final
  status, and the log worker then writes the queued lines into the log area on its own
  thread. When \<^verbatim>\<open>list_groups\<close> raises, the task sets the status, queues the error,
  shows the message box and sets the status again, all on the task thread, and makes no
  call on the tree. Nothing is handed to the main loop.
\<close>

theorem worker_threads_touch_widgets:
  assumes "client g = Some c"
  shows "(list_groups c (network g) = Some (Inr groups, n') \<longrightarrow>
           (\<exists>g' tr. populate_groups th g = Some g' \<and>
              trace g' = trace g @
                [(TaskThread, SetStatus LoadingGroups),
                 (TaskThread, LogPut (GroupsLoaded (length groups))),
                 (TaskThread, TreeGetChildren),
                 (TaskThread, TreeDelete (map node_iid (tree g)))] @ tr \<and>
              (\<forall>x\<in>set tr. fst x = TaskThread) \<and>
              ((\<forall>x\<in>set groups. is_object x) \<and> (\<forall>x\<in>set (filter is_root groups). has_name x) \<and>
               distinct (root_iids (filter is_root groups)) \<longrightarrow>
                 tr = insert_calls TaskThread (sort_key lower_name (filter is_root groups))
                        @ [(TaskThread, SetStatus GroupsDone)] \<and>
                 trace (log_worker g') = trace g' @
                   map (\<lambda>m. (LogThread, LogAreaInsert m))
                     (log_queue g @ [GroupsLoaded (length groups)])))) \<and>
         (list_groups c (network g) = Some (Inl e, n') \<longrightarrow>
           (\<exists>g'. populate_groups th g = Some g' \<and>
              trace g' = trace g @
                [(TaskThread, SetStatus LoadingGroups), (TaskThread, LogPut (GroupsError e)),
                 (TaskThread, ShowError (GroupsError e)), (TaskThread, SetStatus GroupsFailed)]))"
proof (intro conjI impI)
  assume lg: "list_groups c (network g) = Some (Inr groups, n')"
  let ?g2 = "log TaskThread (GroupsLoaded (length groups))
               ((called TaskThread (SetStatus LoadingGroups) g)\<lparr>network := n', all_groups := JArr groups\<rparr>)"
  let ?head = "[(TaskThread, SetStatus LoadingGroups),
                 (TaskThread, LogPut (GroupsLoaded (length groups))),
                 (TaskThread, TreeGetChildren),
                 (TaskThread, TreeDelete (map node_iid (tree g)))]"
  let ?wf = "(\<forall>x\<in>set groups. is_object x) \<and> (\<forall>x\<in>set (filter is_root groups). has_name x) \<and>
               distinct (root_iids (filter is_root groups))"
  let ?srt = "sort_key lower_name (filter is_root groups)"
  have t2: "trace ?g2 = trace g @ [(TaskThread, SetStatus LoadingGroups),
                 (TaskThread, LogPut (GroupsLoaded (length groups)))]"
    and tree2: "tree ?g2 = tree g"
    and q2: "log_queue ?g2 = log_queue g @ [GroupsLoaded (length groups)]"
    by (simp_all add: log_def called_def)
  obtain e g3 where rb: "rebuild_tree TaskThread (JArr groups) ?g2 = (e, g3)"
    by (cases "rebuild_tree TaskThread (JArr groups) ?g2")
  from rebuild_tree_frame [OF rb] obtain t tr0 where
    g3: "g3 = ?g2\<lparr>tree := t, trace := trace ?g2 @ (TaskThread, TreeGetChildren) #
                        (TaskThread, TreeDelete (map node_iid (tree ?g2))) # tr0\<rparr>"
    and tr0: "\<forall>x\<in>set tr0. fst x = TaskThread" by blast
  have tg3: "trace g3 = trace g @ ?head @ tr0" using g3 t2 tree2 by simp
  have run: "populate_groups th g =
       Some (case e of None \<Rightarrow> called TaskThread (SetStatus GroupsDone) g3
             | Some x \<Rightarrow> populate_failed x g3)"
    using assms lg rb by (cases e) (simp_all add: populate_groups_def populate_task_def called_def Let_def)
  define tl where "tl = (case e of None \<Rightarrow> [(TaskThread, SetStatus GroupsDone)]
      | Some x \<Rightarrow> [(TaskThread, LogPut (GroupsError x)), (TaskThread, ShowError (GroupsError x)),
                   (TaskThread, SetStatus GroupsFailed)])"
  define g' where "g' = (case e of None \<Rightarrow> called TaskThread (SetStatus GroupsDone) g3
             | Some x \<Rightarrow> populate_failed x g3)"
  have tg': "trace g' = trace g @ ?head @ (tr0 @ tl)"
    using tg3 by (cases e) (simp_all add: g'_def tl_def populate_failed_def called_def log_def)
  have all: "\<forall>x\<in>set (tr0 @ tl). fst x = TaskThread"
    using tr0 by (cases e) (auto simp: tl_def)
  have wf: "tr0 @ tl = insert_calls TaskThread ?srt @ [(TaskThread, SetStatus GroupsDone)] \<and>
            trace (log_worker g') = trace g' @
                   map (\<lambda>m. (LogThread, LogAreaInsert m))
                     (log_queue g @ [GroupsLoaded (length groups)])" if "?wf"
  proof -
    from that have a: "\<forall>x\<in>set groups. is_object x"
      and b: "\<forall>x\<in>set (filter is_root groups). has_name x"
      and c: "distinct (root_iids (filter is_root groups))" by blast+
    from rebuild_tree_ok [OF a b c, of TaskThread ?g2] rb obtain
      e0: "e = None"
      and tr3: "trace g3 = trace ?g2 @ [(TaskThread, TreeGetChildren),
                   (TaskThread, TreeDelete (map node_iid (tree ?g2)))] @ insert_calls TaskThread ?srt"
      by auto
    from tr3 tg3 t2 tree2 have "tr0 = insert_calls TaskThread ?srt" by simp
    moreover have "log_queue g' = log_queue g @ [GroupsLoaded (length groups)]"
      using g3 q2 e0 by (simp add: g'_def called_def)
    ultimately show ?thesis using e0 by (simp add: tl_def log_worker_def)
  qed
  from run tg' all wf
  show "\<exists>g' tr. populate_groups th g = Some g' \<and> trace g' = trace g @ ?head @ tr \<and>
              (\<forall>x\<in>set tr. fst x = TaskThread) \<and>
              (?wf \<longrightarrow>
                 tr = insert_calls TaskThread ?srt @ [(TaskThread, SetStatus GroupsDone)] \<and>
                 trace (log_worker g') = trace g' @
                   map (\<lambda>m. (LogThread, LogAreaInsert m))
                     (log_queue g @ [GroupsLoaded (length groups)]))"
    unfolding g'_def [symmetric] by blast
next
  assume "list_groups c (network g) = Some (Inl e, n')"
  with assms show "\<exists>g'. populate_groups th g = Some g' \<and>
              trace g' = trace g @
                [(TaskThread, SetStatus LoadingGroups), (TaskThread, LogPut (GroupsError e)),
                 (TaskThread, ShowError (GroupsError e)), (TaskThread, SetStatus GroupsFailed)]"
    by (simp add: populate_groups_def populate_task_def populate_failed_def called_def log_def Let_def)
qed

theorem worker_threads_touch_widgets_witness:
  "(\<exists>g'. populate_groups MainThread mixed_app = Some g' \<and>
      trace g' =
        [(TaskThread, SetStatus LoadingGroups), (TaskThread, LogPut (GroupsLoaded 8)),
         (TaskThread, TreeGetChildren), (TaskThread, TreeDelete []),
         (TaskThread, TreeInsert [] ''group_1''), (TaskThread, TreeInsert ''group_1'' ''group_1_dummy''),
         (TaskThread, TreeInsert [] ''group_5''), (TaskThread, TreeInsert ''group_5'' ''group_5_dummy''),
         (TaskThread, TreeInsert [] ''group_2''), (TaskThread, TreeInsert ''group_2'' ''group_2_dummy''),
         (TaskThread, TreeInsert [] ''group_7''), (TaskThread, TreeInsert ''group_7'' ''group_7_dummy''),
         (TaskThread, TreeInsert [] ''group_6''), (TaskThread, TreeInsert ''group_6'' ''group_6_dummy''),
         (TaskThread, TreeInsert [] ''group_4''), (TaskThread, TreeInsert ''group_4'' ''group_4_dummy''),
         (TaskThread, SetStatus GroupsDone)] \<and>
      trace (log_worker g') = trace g' @ [(LogThread, LogAreaInsert (GroupsLoaded 8))]) \<and>
   (\<exists>g'. populate_groups MainThread failing_app = Some g' \<and>
      trace g' =
        [(TaskThread, SetStatus LoadingGroups), (TaskThread, LogPut (GroupsError (HTTPError ''500: boom''))),
         (TaskThread, ShowError (GroupsError (HTTPError ''500: boom''))),
         (TaskThread, SetStatus GroupsFailed)])"
proof -
  let ?boom = "\<lparr>status_code = 500, resp_text = ''boom'', resp_content = ''boom'', resp_json = Some JNull\<rparr>"
  have c: "client mixed_app = Some demo_client" by (simp add: mixed_app_def demo_app_def)
  have cf: "client failing_app = Some demo_client" by (simp add: failing_app_def demo_app_def)
  have sp: "serves_page (replies (network mixed_app) (length (sent (network mixed_app)))) mixed_groups"
    by (simp add: mixed_app_def serves_page_def json_reply_def)
  have len: "length mixed_groups < 100" by (simp add: mixed_groups_def)
  have n8: "length mixed_groups = 8" by (simp add: mixed_groups_def)
  have o: "\<forall>x\<in>set mixed_groups. is_object x" by (simp add: mixed_groups_def)
  have h: "\<forall>x\<in>set (filter is_root mixed_groups). has_name x" by code_simp
  have d: "distinct (root_iids (filter is_root mixed_groups))" by code_simp
  have v: "insert_calls TaskThread (sort_key lower_name (filter is_root mixed_groups)) =
        [(TaskThread, TreeInsert [] ''group_1''), (TaskThread, TreeInsert ''group_1'' ''group_1_dummy''),
         (TaskThread, TreeInsert [] ''group_5''), (TaskThread, TreeInsert ''group_5'' ''group_5_dummy''),
         (TaskThread, TreeInsert [] ''group_2''), (TaskThread, TreeInsert ''group_2'' ''group_2_dummy''),
         (TaskThread, TreeInsert [] ''group_7''), (TaskThread, TreeInsert ''group_7'' ''group_7_dummy''),
         (TaskThread, TreeInsert [] ''group_6''), (TaskThread, TreeInsert ''group_6'' ''group_6_dummy''),
         (TaskThread, TreeInsert [] ''group_4''), (TaskThread, TreeInsert ''group_4'' ''group_4_dummy'')]"
    by code_simp
  have tr0: "trace mixed_app = []" "tree mixed_app = []" "log_queue mixed_app = []"
    by (simp_all add: mixed_app_def demo_app_def)
  have trf: "trace failing_app = []" by (simp add: failing_app_def demo_app_def)
  have b: "str_int 500 = ''500''" by code_simp
  have rj: "list_groups demo_client (network failing_app) =
      Some (Inl (HTTPError ''500: boom''),
            (network failing_app)\<lparr>sent := sent (network failing_app) @
               map (\<lambda>j. page_request demo_client ''/groups'' [] (1 + j)) [0..<Suc 0]\<rparr>)"
    using list_groups_run [of 0 "network failing_app" demo_client]
    by (simp add: failing_app_def json_reply_def continues_def paged_body_def http_error_def b)
  have w1: "\<exists>g'. populate_groups MainThread mixed_app = Some g' \<and>
      trace g' = [(TaskThread, SetStatus LoadingGroups), (TaskThread, LogPut (GroupsLoaded 8)),
         (TaskThread, TreeGetChildren), (TaskThread, TreeDelete [])] @
        insert_calls TaskThread (sort_key lower_name (filter is_root mixed_groups)) @
        [(TaskThread, SetStatus GroupsDone)] \<and>
      trace (log_worker g') = trace g' @ [(LogThread, LogAreaInsert (GroupsLoaded 8))]"
    using worker_threads_touch_widgets [OF c, of mixed_groups
        "(network mixed_app)\<lparr>sent := sent (network mixed_app) @ [page_request demo_client ''/groups'' [] 1]\<rparr>"
        MainThread]
      list_groups_one_page [OF sp len, of demo_client] o h d
    by (auto simp: tr0 n8)
  have w2: "\<exists>g'. populate_groups MainThread failing_app = Some g' \<and>
      trace g' =
        [(TaskThread, SetStatus LoadingGroups), (TaskThread, LogPut (GroupsError (HTTPError ''500: boom''))),
         (TaskThread, ShowError (GroupsError (HTTPError ''500: boom''))),
         (TaskThread, SetStatus GroupsFailed)]"
    using worker_threads_touch_widgets [OF cf, of _ _ MainThread "HTTPError ''500: boom''"] rj
    by (simp add: trf)
  from w1 w2 show ?thesis by (simp only: v append.simps)
qed

text \<open>
  C7 as stated fails: the task thread of \<^verbatim>\<open>populate_groups\<close> reads, empties and fills
  the Treeview itself.
\<close>

theorem task_thread_touches_tree_counterexample:
  "map_option (\<lambda>g. filter (\<lambda>x. touches_tree (snd x)) (trace g)) (populate_groups MainThread demo_app) =
     Some [(TaskThread, TreeGetChildren), (TaskThread, TreeDelete []),
           (TaskThread, TreeInsert [] ''group_1''), (TaskThread, TreeInsert ''group_1'' ''group_1_dummy''),
           (TaskThread, TreeInsert [] ''group_2''), (TaskThread, TreeInsert ''group_2'' ''group_2_dummy''),
           (TaskThread, TreeInsert [] ''group_4''), (TaskThread, TreeInsert ''group_4'' ''group_4_dummy'')]"
  by code_simp

text \<open>
  C9. If the reply to the validation request of \<^verbatim>\<open>on_login\<close> is an exception of the
  library, a status other than 200 or a body that does not decode, then \<^verbatim>\<open>on_login\<close>
  returns with \<^verbatim>\<open>client\<close>, \<^verbatim>\<open>user_info\<close> and \<^verbatim>\<open>token\<close> as they were, the saved token
  and the files untouched, and without a call of \<^verbatim>\<open>save_token\<close>, whatever the state of
  the check box.
\<close>

theorem login_failure_changes_nothing:
  assumes "validation_raises (replies (network g) (length (sent (network g))))"
  shows "\<exists>g' new. on_login g = Some g' \<and> client g' = client g \<and> user_info g' = user_info g \<and>
           token g' = token g \<and> store g' = store g \<and>
           trace g' = trace g @ new \<and> (\<forall>x\<in>set new. \<not> is_save_token (snd x))"
proof -
  let ?tok = "strip (token_var g)"
  let ?c = "GitLabClient (Some ?tok) (BASE_URL g)"
  from test_raises [OF assms, of ?c] obtain e n' where t: "test ?c (network g) = (Inl e, n')" by blast
  consider (a) "?tok = []" | (b) "?tok \<noteq> []" "\<not> REQUESTS_AVAILABLE g"
    | (c) "?tok \<noteq> []" "REQUESTS_AVAILABLE g" by blast
  then show ?thesis
  proof cases
    case a
    then have "on_login g = Some (g\<lparr>trace := trace g @ [(MainThread, ShowError NeedToken)]\<rparr>)"
      by (simp add: on_login_def called_def)
    then show ?thesis by (simp add: is_save_token_def)
  next
    case b
    then have "on_login g = Some (g\<lparr>trace := trace g @ [(MainThread, ShowError NeedRequests)]\<rparr>)"
      by (simp add: on_login_def called_def)
    then show ?thesis by (simp add: is_save_token_def)
  next
    case c
    then have "on_login g = Some (g\<lparr>network := n', log_queue := log_queue g @ [LoginError e],
        trace := trace g @ [(TaskThread, SetStatus LoggingIn), (TaskThread, LogPut (LoginError e)),
          (TaskThread, ShowError (ErrorText e)), (TaskThread, SetStatus LoginFailed)]\<rparr>)"
      using t by (simp add: on_login_def login_task_def login_failed_def called_def log_def Let_def)
    then show ?thesis by (simp add: is_save_token_def)
  qed
qed

theorem login_failure_changes_nothing_witness:
  "save_token_var fresh_app \<and>
   (\<exists>g' new. on_login fresh_app = Some g' \<and> client g' = None \<and> user_info g' = None \<and>
      token g' = None \<and> store g' = demo_storage \<and> trace g' = new \<and>
      (\<forall>x\<in>set new. \<not> is_save_token (snd x)))"
proof -
  have "validation_raises (replies (network fresh_app) (length (sent (network fresh_app))))"
    by (simp add: fresh_app_def reject_net_def json_reply_def)
  from login_failure_changes_nothing [OF this] show ?thesis
    by (simp add: fresh_app_def demo_app_def)
qed




end
